theory Spec2Isabelle
  imports Main "HOL-Library.Multiset"
begin

section \<open>Python string primitives used by premailer\<close>

text \<open>
  The source is Python 2 and works on byte strings (\<open>str\<close>), modelled as
  \<^typ>\<open>string\<close>.  Every exception the modelled code can raise is a value of
  \<open>error\<close>; a fallible function returns \<open>error + 'a\<close> with \<open>Inl\<close> the
  exception.
\<close>

datatype error = ValueError | UnboundLocalError | IndexError | SelectorError

text \<open>Whitespace of \<open>str.strip()\<close>, \<open>str.split()\<close> and of the regex class \<open>\s\<close>.\<close>

definition is_space :: "char \<Rightarrow> bool" where
  "is_space c = (c = CHR '' '' \<or> c = CHR 0x09 \<or> c = CHR 0x0A \<or> c = CHR 0x0B
                 \<or> c = CHR 0x0C \<or> c = CHR 0x0D)"

text \<open>\<open>s.strip()\<close>\<close>

definition strip :: "string \<Rightarrow> string" where
  "strip s = rev (dropWhile is_space (rev (dropWhile is_space s)))"

text \<open>\<open>s.split(c)\<close> for a one-character separator: always at least one piece.\<close>

fun split_chr :: "char \<Rightarrow> string \<Rightarrow> string list" where
  "split_chr c [] = [[]]"
| "split_chr c (x # xs) =
     (if x = c then [] # split_chr c xs
      else (case split_chr c xs of w # ws \<Rightarrow> (x # w) # ws | [] \<Rightarrow> [[x]]))"

text \<open>\<open>s.split(c, 1)\<close>: split at the first occurrence only.\<close>

definition split1 :: "char \<Rightarrow> string \<Rightarrow> string list" where
  "split1 c s =
     (if c \<in> set s then [takeWhile (\<lambda>x. x \<noteq> c) s, tl (dropWhile (\<lambda>x. x \<noteq> c) s)]
      else [s])"

text \<open>\<open>s.split()\<close>: the maximal runs of non-whitespace characters.\<close>

fun words_acc :: "string \<Rightarrow> string \<Rightarrow> string list" where
  "words_acc w [] = (if w = [] then [] else [w])"
| "words_acc w (x # xs) =
     (if is_space x then (if w = [] then words_acc [] xs else w # words_acc [] xs)
      else words_acc (w @ [x]) xs)"

definition split_ws :: "string \<Rightarrow> string list" where
  "split_ws s = words_acc [] s"

text \<open>\<open>sep.join(xs)\<close>\<close>

fun join :: "string \<Rightarrow> string list \<Rightarrow> string" where
  "join sep [] = []"
| "join sep [x] = x"
| "join sep (x # y # ys) = x @ sep @ join sep (y # ys)"

text \<open>\<open>s.count(c)\<close> for a one-character argument.\<close>

definition count_chr :: "char \<Rightarrow> string \<Rightarrow> nat" where
  "count_chr c s = length (filter (\<lambda>x. x = c) s)"

text \<open>\<open>a, b = xs\<close>: tuple unpacking of a list into two names.\<close>

definition unpack2 :: "string list \<Rightarrow> error + string \<times> string" where
  "unpack2 xs = (case xs of [a, b] \<Rightarrow> Inr (a, b) | _ \<Rightarrow> Inl ValueError)"

section \<open>Shorthand expansion: \<open>_split_spacing_properties\<close>\<close>

type_synonym rule = "string \<times> string"

text \<open>
  The locals \<open>top\<close>, \<open>right\<close>, \<open>bottom\<close>, \<open>left\<close> of the Python function are
  assigned together and only inside the \<open>if/elif\<close> chain on the number of values;
  the chain has no \<open>else\<close>, so with 0 or more than 4 values they keep whatever an
  earlier declaration (of this or of an earlier rule) left in them, and reading them
  while unbound raises \<open>UnboundLocalError\<close>.  \<open>None\<close> stands for "unbound".
\<close>

type_synonym sides = "string \<times> string \<times> string \<times> string"

definition assign_sides :: "sides option \<Rightarrow> string list \<Rightarrow> sides option" where
  "assign_sides st values =
     (if length values = 1 then Some (values ! 0, values ! 0, values ! 0, values ! 0)
      else if length values = 2 then Some (values ! 0, values ! 1, values ! 0, values ! 1)
      else if length values = 3 then Some (values ! 0, values ! 1, values ! 2, values ! 1)
      else if length values = 4 then Some (values ! 0, values ! 1, values ! 2, values ! 3)
      else st)"

text \<open>\<open>is_spacing = p in ('margin', 'padding')\<close>\<close>

definition is_spacing :: "string \<Rightarrow> bool" where
  "is_spacing p = (p = ''margin'' \<or> p = ''padding'')"

text \<open>One pass of the inner loop body: the text appended to \<open>properties\<close>.\<close>

definition split_property :: "sides option \<Rightarrow> string \<Rightarrow> error + sides option \<times> string" where
  "split_property st property' =
     (case unpack2 (split_chr CHR '':'' property') of
        Inl e \<Rightarrow> Inl e
      | Inr (p, v) \<Rightarrow>
          if \<not> is_spacing p then Inr (st, property' @ '';'')
          else (case assign_sides st (split_ws v) of
                  None \<Rightarrow> Inl UnboundLocalError
                | Some (topv, rightv, bottomv, leftv) \<Rightarrow>
                    Inr (Some (topv, rightv, bottomv, leftv),
                         p @ ''-top:'' @ topv @ '';'' @ p @ ''-right:'' @ rightv @ '';''
                         @ p @ ''-bottom:'' @ bottomv @ '';'' @ p @ ''-left:'' @ leftv @ '';'')))"

fun split_properties ::
  "sides option \<Rightarrow> string \<Rightarrow> string list \<Rightarrow> error + sides option \<times> string" where
  "split_properties st properties [] = Inr (st, properties)"
| "split_properties st properties (property' # rest) =
     (case split_property st property' of
        Inl e \<Rightarrow> Inl e
      | Inr (st', s) \<Rightarrow> split_properties st' (properties @ s) rest)"

text \<open>The body of the outer loop, with the removal of the trailing \<open>;\<close>.\<close>

definition split_rule :: "sides option \<Rightarrow> rule \<Rightarrow> error + sides option \<times> rule" where
  "split_rule st r =
     (case r of (selector, style) \<Rightarrow>
        (case split_properties st [] (split_chr CHR '';'' style) of
           Inl e \<Rightarrow> Inl e
         | Inr (st', properties) \<Rightarrow>
             if properties = [] then Inl IndexError
             else Inr (st', (selector,
                    if last properties = CHR '';'' then butlast properties else properties))))"

fun split_rules :: "sides option \<Rightarrow> rule list \<Rightarrow> rule list \<Rightarrow> error + rule list" where
  "split_rules st orules [] = Inr orules"
| "split_rules st orules (r # rs) =
     (case split_rule st r of
        Inl e \<Rightarrow> Inl e
      | Inr (st', r') \<Rightarrow> split_rules st' (orules @ [r']) rs)"

definition split_spacing_properties :: "rule list \<Rightarrow> error + rule list" where
  "split_spacing_properties rules = split_rules None [] rules"


section \<open>Python dictionaries\<close>

text \<open>
  A Python 2 \<open>dict\<close> with string keys is an association list with distinct keys, kept
  in insertion order: \<open>d[k] = v\<close> overwrites the value of an existing key in place and
  appends a new key.  Python 2 iterates a dictionary in an order fixed by the hashes of
  its keys and its history, not in insertion order; that order is the parameter
  \<open>dict_order\<close> of every function that iterates a dictionary: \<open>items_order\<close> for a
  declaration block, \<open>groups_order\<close> for the dictionary of groups.  \<open>order_ok\<close> says
  what is known of it: iteration yields every item once.
\<close>

type_synonym 'v dict = "(string \<times> 'v) list"

type_synonym declarations = "string dict"

type_synonym groups = "declarations dict"

fun dict_set :: "'v dict \<Rightarrow> string \<Rightarrow> 'v \<Rightarrow> 'v dict" where
  "dict_set [] k v = [(k, v)]"
| "dict_set ((k', v') # d) k v =
     (if k' = k then (k', v) # d else (k', v') # dict_set d k v)"

text \<open>\<open>d.get(k, default)\<close>\<close>

definition dict_get :: "'v dict \<Rightarrow> string \<Rightarrow> 'v \<Rightarrow> 'v" where
  "dict_get d k dflt = (case map_of d k of None \<Rightarrow> dflt | Some v \<Rightarrow> v)"

record dict_order =
  items_order :: "declarations \<Rightarrow> declarations"
  groups_order :: "groups \<Rightarrow> groups"

definition order_ok :: "dict_order \<Rightarrow> bool" where
  "order_ok ord = ((\<forall>d. mset (items_order ord d) = mset d) \<and>
                   (\<forall>g. mset (groups_order ord g) = mset g))"

definition insertion_order :: dict_order where
  "insertion_order = \<lparr>items_order = (\<lambda>d. d), groups_order = (\<lambda>g. g)\<rparr>"

section \<open>The style merge engine: \<open>_merge_styles\<close>\<close>

text \<open>
  The loop \<open>for k, v in [x.strip().split(':', 1) for x in s.split(';') if x.strip()]:
  d[k.strip()] = v.strip()\<close>, which the source writes out three times (for \<open>new\<close>,
  for the content of each group of \<open>old\<close>, and for a flat \<open>old\<close>).  Unpacking a
  piece without \<open>:\<close> into \<open>k, v\<close> raises \<open>ValueError\<close>.
\<close>

fun store_declarations :: "string list list \<Rightarrow> declarations \<Rightarrow> error + declarations" where
  "store_declarations [] d = Inr d"
| "store_declarations (kv # rest) d =
     (case unpack2 kv of
        Inl e \<Rightarrow> Inl e
      | Inr (k, v) \<Rightarrow> store_declarations rest (dict_set d (strip k) (strip v)))"

definition parse_declarations :: "string \<Rightarrow> error + declarations" where
  "parse_declarations s =
     store_declarations
       (map (\<lambda>x. split1 CHR '':'' (strip x))
            (filter (\<lambda>x. strip x \<noteq> []) (split_chr CHR '';'' s))) []"

text \<open>
  \<open>grouping_regex = re.compile('([:\-\w]*){([^}]+)}')\<close>.  \<open>\w\<close> on a byte string
  without flags is \<open>[a-zA-Z0-9_]\<close>.  Both repetitions are greedy and each is followed
  by a character outside its own class, so a match at a position, if there is one, is
  the one with both runs maximal: \<open>match_group\<close> is the anchored match, returning the
  two groups and the text after the match.  \<open>findall\<close> scans for the leftmost match and
  goes on after it.
\<close>

definition is_word_char :: "char \<Rightarrow> bool" where
  "is_word_char c =
     (c \<in> set ''abcdefghijklmnopqrstuvwxyzABCDEFGHIJKLMNOPQRSTUVWXYZ0123456789_'')"

definition is_key_char :: "char \<Rightarrow> bool" where
  "is_key_char c = (c = CHR '':'' \<or> c = CHR ''-'' \<or> is_word_char c)"

definition match_group :: "string \<Rightarrow> ((string \<times> string) \<times> string) option" where
  "match_group s =
     (let key = takeWhile is_key_char s; r = dropWhile is_key_char s in
      case r of
        [] \<Rightarrow> None
      | c # r' \<Rightarrow>
          if c \<noteq> CHR ''{'' then None
          else (let content = takeWhile (\<lambda>x. x \<noteq> CHR ''}'') r';
                    r'' = dropWhile (\<lambda>x. x \<noteq> CHR ''}'') r' in
                if content = [] \<or> r'' = [] then None
                else Some ((key, content), tl r'')))"

lemma match_group_shorter: "match_group s = Some (g, rest) \<Longrightarrow> length rest < length s"
proof -
  assume a: "match_group s = Some (g, rest)"
  have 1: "length (dropWhile is_key_char s) \<le> length s" by (rule length_dropWhile_le)
  from a obtain r' where r: "dropWhile is_key_char s = CHR ''{'' # r'"
    and rest: "rest = tl (dropWhile (\<lambda>x. x \<noteq> CHR ''}'') r')"
    by (auto simp: match_group_def Let_def split: list.splits if_splits)
  have "length rest \<le> length r'"
    unfolding rest using length_dropWhile_le[of "\<lambda>x. x \<noteq> CHR ''}''" r'] by simp
  with 1 r show ?thesis by simp
qed

function findall_grouping :: "string \<Rightarrow> (string \<times> string) list" where
  "findall_grouping [] = []"
| "findall_grouping (c # cs) =
     (case match_group (c # cs) of
        Some (g, rest) \<Rightarrow> g # findall_grouping rest
      | None \<Rightarrow> findall_grouping cs)"
  by pat_completeness auto
termination
  by (relation "measure length") (auto dest: match_group_shorter)

text \<open>The loop over \<open>grouped_split\<close>, filling \<open>groups\<close>.\<close>

fun parse_groups :: "(string \<times> string) list \<Rightarrow> groups \<Rightarrow> error + groups" where
  "parse_groups [] groups = Inr groups"
| "parse_groups ((old_class, old_content) # rest) groups =
     (case parse_declarations old_content of
        Inl e \<Rightarrow> Inl e
      | Inr olds \<Rightarrow> parse_groups rest (dict_set groups old_class olds))"

definition parse_old :: "string \<Rightarrow> error + groups" where
  "parse_old old =
     (let grouped_split = findall_grouping old in
      if grouped_split \<noteq> [] then parse_groups grouped_split []
      else (case parse_declarations old of
              Inl e \<Rightarrow> Inl e
            | Inr olds \<Rightarrow> Inr [([], olds)]))"

text \<open>
  \<open>merged = news; for k, v in groups.get(class_, {}).items(): if k not in merged:
  merged[k] = v\<close>, the second argument being the items in iteration order.
\<close>

fun merge_into :: "declarations \<Rightarrow> declarations \<Rightarrow> declarations" where
  "merge_into merged [] = merged"
| "merge_into merged ((k, v) # rest) =
     (if map_of merged k = None then merge_into (dict_set merged k v) rest
      else merge_into merged rest)"

text \<open>The dictionary \<open>groups\<close> as it stands after \<open>groups[class_] = merged\<close>.\<close>

definition merge_groups :: "dict_order \<Rightarrow> string \<Rightarrow> string \<Rightarrow> string \<Rightarrow> error + groups" where
  "merge_groups ord old new klass =
     (case parse_declarations new of
        Inl e \<Rightarrow> Inl e
      | Inr news \<Rightarrow>
          (case parse_old old of
             Inl e \<Rightarrow> Inl e
           | Inr groups \<Rightarrow>
               Inr (dict_set groups klass
                      (merge_into news (items_order ord (dict_get groups klass []))))))"

text \<open>\<open>'; '.join(['%s:%s' % (k, v) for (k, v) in d.items()])\<close>\<close>

definition format_declarations :: "dict_order \<Rightarrow> declarations \<Rightarrow> string" where
  "format_declarations ord d = join ''; '' (map (\<lambda>(k, v). k @ '':'' @ v) (items_order ord d))"

text \<open>
  The \<open>return\<close> statements.  \<open>sorted\<close> with a \<open>cmp\<close> function on the number of colons
  of the keys is a stable sort on that number, as \<open>sort_key\<close> is.
\<close>

definition serialize_groups :: "dict_order \<Rightarrow> groups \<Rightarrow> string" where
  "serialize_groups ord groups =
     (if length groups = 1 then format_declarations ord (snd (hd groups))
      else join '' ''
             (filter (\<lambda>x. x \<noteq> ''{}'')
                (map (\<lambda>(klass, mergeable). klass @ ''{'' @ format_declarations ord mergeable @ ''}'')
                     (sort_key (\<lambda>x. count_chr CHR '':'' (fst x)) (groups_order ord groups)))))"

definition merge_styles :: "dict_order \<Rightarrow> string \<Rightarrow> string \<Rightarrow> string \<Rightarrow> error + string" where
  "merge_styles ord old new klass =
     (case merge_groups ord old new klass of
        Inl e \<Rightarrow> Inl e
      | Inr groups \<Rightarrow> Inr (serialize_groups ord groups))"


section \<open>The rule extractor: \<open>_parse_style_rules\<close>\<close>

text \<open>
  \<open>_css_comments = re.compile(r'/\*.*?\*/', re.MULTILINE | re.DOTALL)\<close> and its
  \<open>sub('', css_body)\<close>: a comment runs from \<open>/*\<close> to the first \<open>*/\<close> after it.
  \<open>find_close\<close> returns the text after that first \<open>*/\<close>.
\<close>

fun find_close :: "string \<Rightarrow> string option" where
  "find_close [] = None"
| "find_close [c] = None"
| "find_close (c # d # cs) =
     (if c = CHR ''*'' \<and> d = CHR ''/'' then Some cs else find_close (d # cs))"

lemma find_close_shorter: "find_close s = Some rest \<Longrightarrow> length rest < length s"
  by (induction s rule: find_close.induct) (auto split: if_splits)

function css_comments_sub :: "string \<Rightarrow> string" where
  "css_comments_sub [] = []"
| "css_comments_sub (c # cs) =
     (case (if c = CHR ''/'' \<and> cs \<noteq> [] \<and> hd cs = CHR ''*'' then find_close (tl cs) else None) of
        Some rest \<Rightarrow> css_comments_sub rest
      | None \<Rightarrow> c # css_comments_sub cs)"
  by pat_completeness auto
termination
proof (relation "measure length")
  fix c cs rest
  assume "(if c = CHR ''/'' \<and> cs \<noteq> [] \<and> hd cs = CHR ''*'' then find_close (tl cs) else None)
          = Some rest"
  then have "find_close (tl cs) = Some rest" by (simp split: if_splits)
  then have "length rest < length (tl cs)" by (rule find_close_shorter)
  then show "(rest, c # cs) \<in> measure length" by simp
qed simp_all

text \<open>
  \<open>_regex = re.compile('((.*?){(.*?)})', re.DOTALL | re.M)\<close> and its \<open>findall\<close>: both
  groups are lazy, so the selectors run to the first \<open>{\<close> and the bulk from there to
  the first \<open>}\<close> after it; without such a pair there is no match at all.  The pairs
  are (selectors, bulk).
\<close>

definition match_block :: "string \<Rightarrow> ((string \<times> string) \<times> string) option" where
  "match_block s =
     (if CHR ''{'' \<notin> set s then None
      else (let selectors = takeWhile (\<lambda>x. x \<noteq> CHR ''{'') s;
                r = tl (dropWhile (\<lambda>x. x \<noteq> CHR ''{'') s) in
            if CHR ''}'' \<notin> set r then None
            else Some ((selectors, takeWhile (\<lambda>x. x \<noteq> CHR ''}'') r),
                       tl (dropWhile (\<lambda>x. x \<noteq> CHR ''}'') r))))"

lemma match_block_shorter: "match_block s = Some (g, rest) \<Longrightarrow> length rest < length s"
proof -
  assume a: "match_block s = Some (g, rest)"
  then have 1: "CHR ''{'' \<in> set s"
    and 2: "rest = tl (dropWhile (\<lambda>x. x \<noteq> CHR ''}'') (tl (dropWhile (\<lambda>x. x \<noteq> CHR ''{'') s)))"
    by (auto simp: match_block_def Let_def split: if_splits)
  from 1 have "dropWhile (\<lambda>x. x \<noteq> CHR ''{'') s \<noteq> []" by (simp add: dropWhile_eq_Nil_conv)
  then have "length (tl (dropWhile (\<lambda>x. x \<noteq> CHR ''{'') s)) < length s"
    using length_dropWhile_le[of "\<lambda>x. x \<noteq> CHR ''{''" s]
    by (cases "dropWhile (\<lambda>x. x \<noteq> CHR ''{'') s") auto
  moreover have "length rest \<le> length (tl (dropWhile (\<lambda>x. x \<noteq> CHR ''{'') s))"
    unfolding 2
    using length_dropWhile_le[of "\<lambda>x. x \<noteq> CHR ''}''" "tl (dropWhile (\<lambda>x. x \<noteq> CHR ''{'') s)"]
    by simp
  ultimately show ?thesis by simp
qed

function findall_blocks :: "string \<Rightarrow> (string \<times> string) list" where
  "findall_blocks s =
     (case match_block s of
        Some (g, rest) \<Rightarrow> g # findall_blocks rest
      | None \<Rightarrow> [])"
  by pat_completeness auto
termination
  by (relation "measure length") (auto dest: match_block_shorter)

declare findall_blocks.simps [simp del]

text \<open>
  \<open>_semicolon_regex = re.compile(';(\s+)')\<close> and \<open>_colon_regex = re.compile(':(\s+)')\<close>
  with their \<open>sub(';', .)\<close> and \<open>sub(':', .)\<close>: the whitespace after each occurrence
  of the character is dropped.  The flag says that the preceding output character was
  the separator (or whitespace being dropped after it).
\<close>

fun drop_space_after :: "char \<Rightarrow> bool \<Rightarrow> string \<Rightarrow> string" where
  "drop_space_after c skip [] = []"
| "drop_space_after c skip (x # xs) =
     (if skip \<and> is_space x then drop_space_after c True xs
      else x # drop_space_after c (x = c) xs)"

definition endswith :: "string \<Rightarrow> string \<Rightarrow> bool" where
  "endswith s suf = (length suf \<le> length s \<and> drop (length s - length suf) s = suf)"

definition startswith :: "string \<Rightarrow> string \<Rightarrow> bool" where
  "startswith s pre = (take (length pre) s = pre)"

definition normalize_bulk :: "string \<Rightarrow> string" where
  "normalize_bulk bulk0 =
     (let bulk = drop_space_after CHR '';'' False (strip bulk0);
          bulk = drop_space_after CHR '':'' False (strip bulk)
      in if endswith bulk '';'' then butlast bulk else bulk)"

definition FILTER_PSEUDOSELECTORS :: "string list" where
  "FILTER_PSEUDOSELECTORS = ['':last-child'', '':first-child'', ''nth-child'']"

record config =
  exclude_pseudoclasses :: bool
  include_star_selectors :: bool

text \<open>The loop over the selectors of one block; \<open>rules\<close> and \<open>leftover\<close> are the two lists.\<close>

fun classify_selectors ::
  "config \<Rightarrow> string \<Rightarrow> string list \<Rightarrow> rule list \<times> rule list \<Rightarrow> rule list \<times> rule list" where
  "classify_selectors cfg bulk [] acc = acc"
| "classify_selectors cfg bulk (selector # rest) (rules, leftover) =
     (if CHR '':'' \<in> set selector \<and> exclude_pseudoclasses cfg \<and>
         (CHR '':'' # (split1 CHR '':'' selector ! 1)) \<notin> set FILTER_PSEUDOSELECTORS
      then classify_selectors cfg bulk rest (rules, leftover @ [(selector, bulk)])
      else if selector = ''*'' \<and> \<not> include_star_selectors cfg
      then classify_selectors cfg bulk rest (rules, leftover)
      else classify_selectors cfg bulk rest (rules @ [(selector, bulk)], leftover))"

definition selector_list :: "string \<Rightarrow> string list" where
  "selector_list selectors =
     map strip (filter (\<lambda>x. strip x \<noteq> [] \<and> \<not> startswith (strip x) ''@'')
                       (split_chr CHR '','' selectors))"

fun parse_blocks ::
  "config \<Rightarrow> (string \<times> string) list \<Rightarrow> rule list \<times> rule list \<Rightarrow> rule list \<times> rule list" where
  "parse_blocks cfg [] acc = acc"
| "parse_blocks cfg ((selectors, bulk) # rest) acc =
     parse_blocks cfg rest
       (classify_selectors cfg (normalize_bulk bulk) (selector_list selectors) acc)"

text \<open>The result is the pair (rules, leftover).\<close>

definition parse_style_rules :: "config \<Rightarrow> string \<Rightarrow> rule list \<times> rule list" where
  "parse_style_rules cfg css_body =
     parse_blocks cfg (findall_blocks (strip (css_comments_sub css_body))) ([], [])"

section \<open>The attribute mapper: \<open>_style_to_basic_html_attributes\<close>\<close>

text \<open>
  An element's attributes (\<open>element.attrib\<close>) are a map from names to values.  The
  local dictionary \<open>attributes\<close> has at most the keys \<open>align\<close>, \<open>bgcolor\<close>, \<open>width\<close> and
  \<open>height\<close>, and the final loop sets each of its keys on the element independently of
  the others, so the order of that loop does not matter and the dictionary is a map
  too.
\<close>

type_synonym attrib = "string \<rightharpoonup> string"

fun collect_attributes :: "string list \<Rightarrow> attrib \<Rightarrow> attrib" where
  "collect_attributes [] attributes = attributes"
| "collect_attributes (x # xs) attributes =
     (if length (split_chr CHR '':'' x) = 2
      then (let key = strip (split_chr CHR '':'' x ! 0); val = split_chr CHR '':'' x ! 1 in
            if key = ''text-align''
            then collect_attributes xs (attributes(''align'' \<mapsto> strip val))
            else if key = ''background-color''
            then collect_attributes xs (attributes(''bgcolor'' \<mapsto> strip val))
            else if key = ''width'' \<or> key = ''height''
            then collect_attributes xs
                   (attributes(key \<mapsto> (if endswith (strip val) ''px''
                                         then take (length (strip val) - 2) (strip val)
                                         else strip val)))
            else collect_attributes xs attributes)
      else collect_attributes xs attributes)"

definition style_to_basic_html_attributes :: "attrib \<Rightarrow> string \<Rightarrow> bool \<Rightarrow> attrib" where
  "style_to_basic_html_attributes element style_content force =
     (let style_content =
            (if count_chr CHR ''}'' style_content \<noteq> 0 \<and>
                count_chr CHR ''{'' style_content = count_chr CHR ''{'' style_content
             then tl (hd (split_chr CHR ''}'' style_content))
             else style_content);
          attributes = collect_attributes (split_chr CHR '';'' style_content) Map.empty
      in (\<lambda>key. case attributes key of
                   None \<Rightarrow> element key
                 | Some v \<Rightarrow> if element key \<noteq> None \<and> \<not> force then element key else Some v))"

section \<open>The orchestrator: the style passes of \<open>Premailer.transform\<close>\<close>

text \<open>
  The document is seen through its elements' attributes: an element is a number and
  the page maps it to its attributes.  The selector-query service
  (\<open>CSSSelector(selector)(page)\<close>) is a parameter: given a selector and the page as
  it stands, it returns the matching elements or raises.  Of \<open>transform\<close> the model
  keeps what happens to the \<open>style\<close> attributes and to the attributes projected from
  them: shorthand expansion, the loop over the rules, and the pass that re-applies
  the initial inline styles.
\<close>

type_synonym page = "nat \<Rightarrow> attrib"

type_synonym selector_service = "string \<Rightarrow> page \<Rightarrow> error + nat list"

record loop_state =
  page :: page
  first_time :: "nat list"
  first_time_styles :: "(nat \<times> string) list"

text \<open>\<open>item.attrib.get('style', '')\<close>\<close>

definition get_style :: "attrib \<Rightarrow> string" where
  "get_style a = (case a ''style'' of None \<Rightarrow> [] | Some s \<Rightarrow> s)"

text \<open>\<open>item.attrib['style'] = new_style\<close> followed by the attribute projection.\<close>

definition set_style :: "page \<Rightarrow> nat \<Rightarrow> string \<Rightarrow> page" where
  "set_style pg item new_style =
     pg(item := style_to_basic_html_attributes ((pg item)(''style'' \<mapsto> new_style)) new_style True)"

text \<open>The body of \<open>for item in sel(page)\<close>.\<close>

definition touch :: "dict_order \<Rightarrow> string \<Rightarrow> string \<Rightarrow> loop_state \<Rightarrow> nat \<Rightarrow> error + loop_state" where
  "touch ord style klass st item =
     (let old_style = get_style (page st item) in
      if item \<notin> set (first_time st)
      then (case (if old_style \<noteq> [] then merge_styles ord style old_style klass
                  else merge_styles ord old_style style klass) of
              Inl e \<Rightarrow> Inl e
            | Inr new_style \<Rightarrow>
                Inr \<lparr>page = set_style (page st) item new_style,
                     first_time = first_time st @ [item],
                     first_time_styles = first_time_styles st @ [(item, old_style)]\<rparr>)
      else (case merge_styles ord old_style style klass of
              Inl e \<Rightarrow> Inl e
            | Inr new_style \<Rightarrow> Inr (st\<lparr>page := set_style (page st) item new_style\<rparr>)))"

fun touch_all ::
  "dict_order \<Rightarrow> string \<Rightarrow> string \<Rightarrow> loop_state \<Rightarrow> nat list \<Rightarrow> error + loop_state" where
  "touch_all ord style klass st [] = Inr st"
| "touch_all ord style klass st (item # items) =
     (case touch ord style klass st item of
        Inl e \<Rightarrow> Inl e
      | Inr st' \<Rightarrow> touch_all ord style klass st' items)"

text \<open>
  The head of the loop over the rules: the selector handed to the selector-query
  service and the value of \<open>class_\<close>.
\<close>

definition split_selector :: "string \<Rightarrow> string \<times> string" where
  "split_selector selector =
     (let (new_selector, klass) =
            (if CHR '':'' \<in> set selector
             then (split1 CHR '':'' selector ! 0, CHR '':'' # (split1 CHR '':'' selector ! 1))
             else (selector, []))
      in if klass \<in> set FILTER_PSEUDOSELECTORS then (selector, [])
         else (new_selector, klass))"

text \<open>
  The loop over the rules.  \<open>class_\<close> is a local of \<open>transform\<close> that the loop leaves
  set to its value for the last rule (\<open>None\<close>: unbound, no rule yet).
\<close>

fun apply_rules ::
  "dict_order \<Rightarrow> selector_service \<Rightarrow> loop_state \<times> string option \<Rightarrow> rule list
   \<Rightarrow> error + loop_state \<times> string option" where
  "apply_rules ord css_select (st, klass) [] = Inr (st, klass)"
| "apply_rules ord css_select (st, klass) ((selector, style) # rules) =
     (case split_selector selector of (selector', klass') \<Rightarrow>
        (case css_select selector' (page st) of
           Inl e \<Rightarrow> Inl e
         | Inr items \<Rightarrow>
             (case touch_all ord style klass' st items of
                Inl e \<Rightarrow> Inl e
              | Inr st' \<Rightarrow> apply_rules ord css_select (st', Some klass') rules)))"

text \<open>The pass under the comment \<open># Re-apply initial inline styles.\<close>\<close>

fun reapply_inline ::
  "dict_order \<Rightarrow> string option \<Rightarrow> page \<Rightarrow> (nat \<times> string) list \<Rightarrow> error + page" where
  "reapply_inline ord klass pg [] = Inr pg"
| "reapply_inline ord klass pg ((item, inline_style) # rest) =
     (let old_style = get_style (pg item) in
      if inline_style = [] then reapply_inline ord klass pg rest
      else (case klass of
              None \<Rightarrow> Inl UnboundLocalError
            | Some k \<Rightarrow>
                (case merge_styles ord old_style inline_style k of
                   Inl e \<Rightarrow> Inl e
                 | Inr new_style \<Rightarrow> reapply_inline ord klass (set_style pg item new_style) rest)))"

definition inline_rules ::
  "dict_order \<Rightarrow> selector_service \<Rightarrow> rule list \<Rightarrow> page \<Rightarrow> error + page" where
  "inline_rules ord css_select rules0 pg =
     (case split_spacing_properties rules0 of
        Inl e \<Rightarrow> Inl e
      | Inr rules \<Rightarrow>
          (case apply_rules ord css_select
                  (\<lparr>page = pg, first_time = [], first_time_styles = []\<rparr>, None) rules of
             Inl e \<Rightarrow> Inl e
           | Inr (st, klass) \<Rightarrow> reapply_inline ord klass (page st) (first_time_styles st)))"

text \<open>
  The rules of \<open>transform\<close>: those of the \<open>style\<close> elements' texts, then those of the
  external style sheets, in order.
\<close>

definition collect_rules :: "config \<Rightarrow> string list \<Rightarrow> rule list" where
  "collect_rules cfg css_bodies = concat (map (\<lambda>css_body. fst (parse_style_rules cfg css_body)) css_bodies)"

definition transform_styles ::
  "config \<Rightarrow> dict_order \<Rightarrow> selector_service \<Rightarrow> string list \<Rightarrow> page \<Rightarrow> error + page" where
  "transform_styles cfg ord css_select css_bodies pg =
     inline_rules ord css_select (collect_rules cfg css_bodies) pg"


section \<open>Notions of the specification\<close>

text \<open>
  A declaration is \<open>name:value\<close>; \<open>one_colon\<close> says that a piece of a declaration
  block has exactly one \<open>:\<close>, and then \<open>decl_name\<close> and \<open>decl_value\<close> are its two sides.
\<close>

definition one_colon :: "string \<Rightarrow> bool" where
  "one_colon d = (count_chr CHR '':'' d = 1)"

definition decl_name :: "string \<Rightarrow> string" where
  "decl_name d = takeWhile (\<lambda>x. x \<noteq> CHR '':'') d"

definition decl_value :: "string \<Rightarrow> string" where
  "decl_value d = tl (dropWhile (\<lambda>x. x \<noteq> CHR '':'') d)"

text \<open>
  The four cases of the specification of shorthand expansion, as (top, right, bottom,
  left): one value for all sides; top/bottom and left/right; top, left/right, bottom;
  top, right, bottom, left.
\<close>

definition spec_sides :: "string list \<Rightarrow> sides option" where
  "spec_sides vs =
     (case vs of
        [a] \<Rightarrow> Some (a, a, a, a)
      | [a, b] \<Rightarrow> Some (a, b, a, b)
      | [a, b, c] \<Rightarrow> Some (a, b, c, b)
      | [a, b, c, d] \<Rightarrow> Some (a, b, c, d)
      | _ \<Rightarrow> None)"

definition longhands :: "string \<Rightarrow> sides \<Rightarrow> string list" where
  "longhands p s =
     (case s of (t, r, b, l) \<Rightarrow>
        [p @ ''-top:'' @ t, p @ ''-right:'' @ r, p @ ''-bottom:'' @ b, p @ ''-left:'' @ l])"

text \<open>
  What one declaration becomes: a declaration that is not \<open>margin\<close> or \<open>padding\<close>
  stays as it is; a \<open>margin\<close> or \<open>padding\<close> becomes four longhand declarations of some
  sides, which are the sides of the specification whenever it has 1 to 4 values.
\<close>

definition expands_to :: "string \<Rightarrow> string list \<Rightarrow> bool" where
  "expands_to d chunk =
     (one_colon d \<and>
      (if is_spacing (decl_name d)
       then (\<exists>s. chunk = longhands (decl_name d) s \<and>
                 (case spec_sides (split_ws (decl_value d)) of None \<Rightarrow> True | Some s' \<Rightarrow> s = s'))
       else chunk = [d]))"

definition rule_expands_to :: "rule \<Rightarrow> rule \<Rightarrow> bool" where
  "rule_expands_to r r' =
     (fst r' = fst r \<and>
      (\<exists>chunks. snd r' = join '';'' (concat chunks) \<and>
                list_all2 expands_to (split_chr CHR '';'' (snd r)) chunks))"

text \<open>A declaration the expansion accepts: one colon, and 1 to 4 values if it is a shorthand.\<close>

definition ok_decl :: "string \<Rightarrow> bool" where
  "ok_decl d = (one_colon d \<and>
     (if is_spacing (decl_name d)
      then 1 \<le> length (split_ws (decl_value d)) \<and> length (split_ws (decl_value d)) \<le> 4
      else True))"

text \<open>
  The expansion as a function, for declarations the expansion accepts: a shorthand
  becomes its four longhands, any other declaration itself.
\<close>

definition spec_expand_decl :: "string \<Rightarrow> string list" where
  "spec_expand_decl d =
     (if is_spacing (decl_name d)
      then (case spec_sides (split_ws (decl_value d)) of
              Some s \<Rightarrow> longhands (decl_name d) s
            | None \<Rightarrow> [])
      else [d])"

definition spec_expand_rule :: "rule \<Rightarrow> rule" where
  "spec_expand_rule r =
     (fst r, join '';'' (concat (map spec_expand_decl (split_chr CHR '';'' (snd r)))))"

definition plain_decl :: "string \<Rightarrow> bool" where
  "plain_decl d = (one_colon d \<and> \<not> is_spacing (decl_name d))"

text \<open>The declarations of a list, each followed by \<open>;\<close>, as the loop builds \<open>properties\<close>.\<close>

definition terminated :: "string list \<Rightarrow> string" where
  "terminated xs = concat (map (\<lambda>x. x @ '';'') xs)"

text \<open>A value of a side that the expansion can write and read back: no \<open>:\<close>, no \<open>;\<close>.\<close>

definition tok :: "string \<Rightarrow> bool" where
  "tok t = (CHR '':'' \<notin> set t \<and> CHR '';'' \<notin> set t)"

definition sides_clean :: "sides option \<Rightarrow> bool" where
  "sides_clean st = (case st of None \<Rightarrow> True | Some (a, b, c, d) \<Rightarrow> tok a \<and> tok b \<and> tok c \<and> tok d)"

text \<open>A declaration as the expansion leaves it: not a shorthand, one colon, no \<open>;\<close> inside.\<close>

definition settled :: "string \<Rightarrow> bool" where
  "settled x = (plain_decl x \<and> CHR '';'' \<notin> set x)"

text \<open>\<open>sub in s\<close>: the text \<open>s\<close> contains \<open>sub\<close>.\<close>

fun contains :: "string \<Rightarrow> string \<Rightarrow> bool" where
  "contains [] sub = (sub = [])"
| "contains (x # xs) sub = (take (length sub) (x # xs) = sub \<or> contains xs sub)"

text \<open>\<open>'%s:%s' % (k, v)\<close>\<close>

definition fmt :: "string \<times> string \<Rightarrow> string" where
  "fmt kv = fst kv @ '':'' @ snd kv"

text \<open>
  What every parsed declaration block satisfies: distinct names; names and values
  stripped, without \<open>;\<close>, the names without \<open>:\<close>.  Such a block is read back from
  its text as it is.
\<close>

definition clean :: "declarations \<Rightarrow> bool" where
  "clean d = (distinct (map fst d) \<and>
     list_all (\<lambda>(k, v). strip k = k \<and> CHR '':'' \<notin> set k \<and> CHR '';'' \<notin> set k \<and>
                         strip v = v \<and> CHR '';'' \<notin> set v) d)"

text \<open>The text of the groups alone, each as \<open>key{content}\<close>, with nothing between them.\<close>

definition regroup :: "(string \<times> string) list \<Rightarrow> string" where
  "regroup gs = concat (map (\<lambda>(k, c). k @ ''{'' @ c @ ''}'') gs)"

text \<open>
  One group as the serialization writes it, and the groups it writes when there is
  more than one: in ascending number of colons of the key (groups with the same number
  in the dictionary's order), without the unconditional group if that is empty.
\<close>

definition format_group :: "dict_order \<Rightarrow> string \<times> declarations \<Rightarrow> string" where
  "format_group ord g = fst g @ ''{'' @ format_declarations ord (snd g) @ ''}''"

definition emitted_groups :: "dict_order \<Rightarrow> groups \<Rightarrow> groups" where
  "emitted_groups ord groups =
     filter (\<lambda>g. \<not> (fst g = [] \<and> snd g = []))
       (sort_key (\<lambda>x. count_chr CHR '':'' (fst x)) (groups_order ord groups))"

section \<open>Example documents\<close>

text \<open>
  A page whose element 0 is a \<open>p\<close> with the given inline style (an empty text: no
  \<open>style\<close> attribute), the state of the rule loop on entry, a selector-query service
  for that page (the selector \<open>p\<close> matches element 0, any other selector nothing), and
  the configuration with pseudo-class exclusion switched on or off.
\<close>

definition page_one :: "string \<Rightarrow> page" where
  "page_one inline = (\<lambda>n. if n = 0 \<and> inline \<noteq> [] then [''style'' \<mapsto> inline] else Map.empty)"


definition select_p :: selector_service where
  "select_p selector pg = Inr (if selector = ''p'' then [0] else [])"

definition exclude_config :: config where
  "exclude_config = \<lparr>exclude_pseudoclasses = True, include_star_selectors = False\<rparr>"

definition default_config :: config where
  "default_config = \<lparr>exclude_pseudoclasses = False, include_star_selectors = False\<rparr>"

section \<open>Shorthand expansion: proofs\<close>

lemma split_chr_neq_Nil: "split_chr c s \<noteq> []"
  by (induction s) (auto split: list.splits)

lemma length_split_chr: "length (split_chr c s) = Suc (count_chr c s)"
  by (induction s) (auto simp: count_chr_def split: list.splits)

lemma concat_split_chr: "concat (map (\<lambda>d. d @ [c]) (split_chr c s)) = s @ [c]"
  by (induction s) (auto split: list.splits)

lemma split_chr_no_sep: "d \<in> set (split_chr c s) \<Longrightarrow> c \<notin> set d"
  by (induction s arbitrary: d) (auto split: list.splits if_splits)

lemma unpack2_Inr: "unpack2 xs = Inr (a, b) \<longleftrightarrow> xs = [a, b]"
  by (auto simp: unpack2_def split: list.splits)

lemma unpack2_bad: "length xs \<noteq> 2 \<Longrightarrow> unpack2 xs = Inl ValueError"
  by (auto simp: unpack2_def split: list.splits)

lemma unpack2_cases: "unpack2 xs = Inl ValueError \<or> (\<exists>a b. xs = [a, b] \<and> unpack2 xs = Inr (a, b))"
  by (auto simp: unpack2_def split: list.splits)

lemma split_chr_one: "count_chr c d = 1 \<Longrightarrow>
  split_chr c d = [takeWhile (\<lambda>x. x \<noteq> c) d, tl (dropWhile (\<lambda>x. x \<noteq> c) d)]"
proof (induction d)
  case Nil then show ?case by (simp add: count_chr_def)
next
  case (Cons x d)
  show ?case
  proof (cases "x = c")
    case True
    with Cons.prems have "count_chr c d = 0" by (simp add: count_chr_def)
    then have "c \<notin> set d" by (auto simp: count_chr_def filter_empty_conv)
    then have "split_chr c d = [d]" by (induction d) (auto split: list.splits)
    with True show ?thesis by simp
  next
    case False
    with Cons.prems have "count_chr c d = 1" by (simp add: count_chr_def)
    with Cons.IH False show ?thesis by simp
  qed
qed









lemma split_property_bad: "\<not> one_colon d \<Longrightarrow> split_property st d = Inl ValueError"
  by (simp add: split_property_def one_colon_def unpack2_bad length_split_chr)

lemma split_properties_bad:
  "\<exists>d \<in> set ds. \<not> one_colon d \<Longrightarrow> \<exists>e. split_properties st acc ds = Inl e"
proof (induction ds arbitrary: st acc)
  case Nil then show ?case by simp
next
  case (Cons d ds)
  show ?case
  proof (cases "split_property st d")
    case (Inl e) then show ?thesis by simp
  next
    case (Inr r)
    then have "one_colon d" using split_property_bad[of d st] by auto
    with Cons.prems have "\<exists>d \<in> set ds. \<not> one_colon d" by auto
    from Cons.IH[OF this] Inr show ?thesis by (auto split: prod.splits)
  qed
qed

lemma split_rule_bad:
  "\<exists>d \<in> set (split_chr CHR '';'' (snd r)). \<not> one_colon d \<Longrightarrow> \<exists>e. split_rule st r = Inl e"
  using split_properties_bad[of "split_chr CHR '';'' (snd r)" st "[]"]
  by (auto simp: split_rule_def split: prod.splits)

lemma split_rules_bad:
  "\<exists>r \<in> set rs. \<exists>d \<in> set (split_chr CHR '';'' (snd r)). \<not> one_colon d
   \<Longrightarrow> \<exists>e. split_rules st acc rs = Inl e"
proof (induction rs arbitrary: st acc)
  case Nil then show ?case by simp
next
  case (Cons r rs)
  show ?case
  proof (cases "split_rule st r")
    case (Inl e) then show ?thesis by simp
  next
    case (Inr x)
    then have "\<not> (\<exists>d \<in> set (split_chr CHR '';'' (snd r)). \<not> one_colon d)"
      using split_rule_bad[of r st] by auto
    with Cons.prems have "\<exists>r \<in> set rs. \<exists>d \<in> set (split_chr CHR '';'' (snd r)). \<not> one_colon d"
      by auto
    from Cons.IH[OF this] Inr show ?thesis by (auto split: prod.splits)
  qed
qed

lemma assign_sides_spec: "spec_sides vs = Some s \<Longrightarrow> assign_sides st vs = Some s"
  by (auto simp: spec_sides_def assign_sides_def split: list.splits)

lemma spec_sides_Some_iff: "(\<exists>s. spec_sides vs = Some s) \<longleftrightarrow> 1 \<le> length vs \<and> length vs \<le> 4"
  by (auto simp: spec_sides_def split: list.splits)


lemma split_property_ok:
  assumes "ok_decl d"
  shows "\<exists>st' s. split_property st d = Inr (st', s)"
proof -
  from assms have sp: "split_chr CHR '':'' d = [decl_name d, decl_value d]"
    by (simp add: ok_decl_def one_colon_def split_chr_one decl_name_def decl_value_def)
  show ?thesis
  proof (cases "is_spacing (decl_name d)")
    case False
    with sp show ?thesis by (simp add: split_property_def unpack2_def is_spacing_def)
  next
    case True
    with assms obtain s where "spec_sides (split_ws (decl_value d)) = Some s"
      using spec_sides_Some_iff[of "split_ws (decl_value d)"] by (auto simp: ok_decl_def)
    then have "assign_sides st (split_ws (decl_value d)) = Some s" by (rule assign_sides_spec)
    with sp True show ?thesis
      by (cases s) (simp add: split_property_def unpack2_def is_spacing_def)
  qed
qed

lemma split_property_nonempty: "split_property st d = Inr (st', s) \<Longrightarrow> s \<noteq> []"
  by (auto simp: split_property_def split: sum.splits if_splits option.splits prod.splits)




lemma terminated_append: "terminated (xs @ ys) = terminated xs @ terminated ys"
  by (simp add: terminated_def)

lemma terminated_join: "xs \<noteq> [] \<Longrightarrow> terminated xs = join '';'' xs @ '';''"
proof (induction xs)
  case Nil then show ?case by simp
next
  case (Cons x xs) then show ?case by (cases xs) (auto simp: terminated_def)
qed

lemma split_property_expands:
  assumes "split_property st d = Inr (st', s)"
  shows "\<exists>chunk. s = terminated chunk \<and> expands_to d chunk"
proof -
  from assms have oc: "one_colon d" using split_property_bad[of d st] by auto
  then have sp: "split_chr CHR '':'' d = [decl_name d, decl_value d]"
    by (simp add: one_colon_def split_chr_one decl_name_def decl_value_def)
  show ?thesis
  proof (cases "is_spacing (decl_name d)")
    case False
    with sp assms have "s = terminated [d]"
      by (auto simp: split_property_def unpack2_def is_spacing_def terminated_def)
    with False oc show ?thesis by (auto simp: expands_to_def)
  next
    case True
    with sp assms obtain sd where
      a: "assign_sides st (split_ws (decl_value d)) = Some sd"
      and s: "s = terminated (longhands (decl_name d) sd)"
      by (auto simp: split_property_def unpack2_def is_spacing_def terminated_def longhands_def
               split: option.splits prod.splits)
    have "case spec_sides (split_ws (decl_value d)) of None \<Rightarrow> True | Some s' \<Rightarrow> sd = s'"
      using a assign_sides_spec[of "split_ws (decl_value d)" _ st] by (auto split: option.splits)
    with True oc have "expands_to d (longhands (decl_name d) sd)"
      unfolding expands_to_def by (simp del: split_paired_Ex) (rule exI[of _ sd], simp)
    with s show ?thesis by blast
  qed
qed

lemma split_properties_expands:
  "split_properties st acc ds = Inr (st', out) \<Longrightarrow>
   \<exists>chunks. out = acc @ terminated (concat chunks) \<and> list_all2 expands_to ds chunks"
proof (induction ds arbitrary: st acc)
  case Nil
  then show ?case by (simp add: terminated_def)
next
  case (Cons d ds)
  from Cons.prems obtain st1 s1 where 1: "split_property st d = Inr (st1, s1)"
    and 2: "split_properties st1 (acc @ s1) ds = Inr (st', out)"
    by (auto split: sum.splits)
  from split_property_expands[OF 1] obtain chunk where
    c: "s1 = terminated chunk" "expands_to d chunk" by auto
  from Cons.IH[OF 2] obtain chunks where
    cs: "out = (acc @ s1) @ terminated (concat chunks)" "list_all2 expands_to ds chunks" by auto
  have "out = acc @ terminated (concat (chunk # chunks))"
    using c(1) cs(1) by (simp add: terminated_append)
  moreover have "list_all2 expands_to (d # ds) (chunk # chunks)" using c(2) cs(2) by simp
  ultimately show ?case by blast
qed

lemma expands_to_nonempty: "expands_to d chunk \<Longrightarrow> chunk \<noteq> []"
  by (auto simp: expands_to_def longhands_def split: if_splits prod.splits)


lemma split_rule_expands:
  assumes "split_rule st r = Inr (st', r')"
  shows "rule_expands_to r r'"
proof -
  obtain selector style where r: "r = (selector, style)" by (cases r)
  from assms r obtain properties where
    1: "split_properties st [] (split_chr CHR '';'' style) = Inr (st', properties)"
    and 2: "r' = (selector, if last properties = CHR '';'' then butlast properties else properties)"
    by (auto simp: split_rule_def split: sum.splits if_splits)
  from split_properties_expands[OF 1] obtain chunks where
    cs: "properties = terminated (concat chunks)"
        "list_all2 expands_to (split_chr CHR '';'' style) chunks" by auto
  from cs(2) have "chunks \<noteq> []" using split_chr_neq_Nil[of "CHR '';''" style] by auto
  moreover from cs(2) have "\<forall>c \<in> set chunks. c \<noteq> []"
    using expands_to_nonempty by (fastforce simp: list_all2_conv_all_nth in_set_conv_nth)
  ultimately have "concat chunks \<noteq> []" by (cases chunks) auto
  then have "properties = join '';'' (concat chunks) @ '';''"
    using cs(1) by (simp add: terminated_join)
  with 2 have "r' = (selector, join '';'' (concat chunks))" by simp
  with r cs(2) show ?thesis by (auto simp: rule_expands_to_def)
qed

lemma split_rules_expands:
  "split_rules st acc rs = Inr out \<Longrightarrow>
   \<exists>out'. out = acc @ out' \<and> list_all2 rule_expands_to rs out'"
proof (induction rs arbitrary: st acc)
  case Nil then show ?case by simp
next
  case (Cons r rs)
  from Cons.prems obtain st1 r1 where 1: "split_rule st r = Inr (st1, r1)"
    and 2: "split_rules st1 (acc @ [r1]) rs = Inr out"
    by (auto split: sum.splits)
  from Cons.IH[OF 2] obtain out' where "out = (acc @ [r1]) @ out'" "list_all2 rule_expands_to rs out'"
    by auto
  with split_rule_expands[OF 1] have "out = acc @ (r1 # out') \<and> list_all2 rule_expands_to (r # rs) (r1 # out')"
    by simp
  then show ?case by blast
qed


lemma split_properties_ok:
  "list_all ok_decl ds \<Longrightarrow> \<exists>st' s. split_properties st acc ds = Inr (st', s)"
proof (induction ds arbitrary: st acc)
  case Nil then show ?case by simp
next
  case (Cons d ds)
  then obtain st1 s1 where 1: "split_property st d = Inr (st1, s1)"
    using split_property_ok[of d st] by auto
  from Cons.prems have "list_all ok_decl ds" by simp
  from Cons.IH[OF this, of st1 "acc @ s1"] 1 show ?case by simp
qed

lemma split_properties_nonempty:
  assumes "split_properties st [] ds = Inr (st', s)" "ds \<noteq> []" shows "s \<noteq> []"
proof -
  from split_properties_expands[OF assms(1)] obtain chunks where
    cs: "s = terminated (concat chunks)" "list_all2 expands_to ds chunks" by auto
  with assms(2) obtain c cs' where "chunks = c # cs'" "c \<noteq> []"
    by (cases chunks; cases ds) (auto simp: expands_to_nonempty)
  with cs(1) show ?thesis by (cases c) (auto simp: terminated_def)
qed

lemma split_rule_ok:
  assumes "list_all ok_decl (split_chr CHR '';'' (snd r))"
  shows "\<exists>st' r'. split_rule st r = Inr (st', r')"
proof -
  from split_properties_ok[OF assms, of st "[]"] obtain st' s where
    1: "split_properties st [] (split_chr CHR '';'' (snd r)) = Inr (st', s)" by auto
  from split_properties_nonempty[OF 1 split_chr_neq_Nil] have "s \<noteq> []" .
  with 1 show ?thesis by (cases r) (auto simp: split_rule_def)
qed

lemma split_rules_ok:
  "list_all (\<lambda>r. list_all ok_decl (split_chr CHR '';'' (snd r))) rs \<Longrightarrow>
   \<exists>out. split_rules st acc rs = Inr out"
proof (induction rs arbitrary: st acc)
  case Nil then show ?case by simp
next
  case (Cons r rs)
  then obtain st1 r1 where 1: "split_rule st r = Inr (st1, r1)"
    using split_rule_ok[of r st] by auto
  from Cons.prems have "list_all (\<lambda>r. list_all ok_decl (split_chr CHR '';'' (snd r))) rs" by simp
  from Cons.IH[OF this, of st1 "acc @ [r1]"] 1 show ?case by simp
qed

lemma split_property_errors:
  "split_property st d = Inl e \<Longrightarrow> e = ValueError \<or> e = UnboundLocalError"
  using unpack2_cases[of "split_chr CHR '':'' d"]
  by (auto simp: split_property_def split: sum.splits if_splits option.splits prod.splits)

lemma split_properties_errors:
  "split_properties st acc ds = Inl e \<Longrightarrow> e = ValueError \<or> e = UnboundLocalError"
proof (induction ds arbitrary: st acc)
  case Nil then show ?case by simp
next
  case (Cons d ds)
  then show ?case
    by (cases "split_property st d") (auto dest: split_property_errors split: prod.splits)
qed

lemma split_rule_errors:
  assumes "split_rule st r = Inl e" shows "e = ValueError \<or> e = UnboundLocalError"
proof (cases "split_properties st [] (split_chr CHR '';'' (snd r))")
  case (Inl e')
  with assms have "e = e'" by (cases r) (simp add: split_rule_def)
  with Inl show ?thesis by (auto dest: split_properties_errors)
next
  case (Inr x)
  obtain st' s where x: "x = (st', s)" by (cases x)
  from Inr x have "s \<noteq> []" using split_properties_nonempty[OF _ split_chr_neq_Nil] by blast
  with Inr x assms show ?thesis by (cases r) (simp add: split_rule_def)
qed

lemma split_rules_errors:
  "split_rules st acc rs = Inl e \<Longrightarrow> e = ValueError \<or> e = UnboundLocalError"
proof (induction rs arbitrary: st acc)
  case Nil then show ?case by simp
next
  case (Cons r rs)
  then show ?case
    by (cases "split_rule st r") (auto dest: split_rule_errors split: prod.splits)
qed

lemma split_properties_plain:
  "list_all plain_decl ds \<Longrightarrow> split_properties st acc ds = Inr (st, acc @ terminated ds)"
proof (induction ds arbitrary: acc)
  case Nil then show ?case by (simp add: terminated_def)
next
  case (Cons d ds)
  from Cons.prems have "one_colon d" "\<not> is_spacing (decl_name d)" by (auto simp: plain_decl_def)
  then have "split_property st d = Inr (st, d @ '';'')"
    by (simp add: split_property_def one_colon_def split_chr_one unpack2_def decl_name_def)
  with Cons show ?case by (simp add: terminated_def)
qed

lemma split_rule_plain:
  assumes "list_all plain_decl (split_chr CHR '';'' (snd r))"
  shows "split_rule st r = Inr (st, r)"
proof -
  have "terminated (split_chr CHR '';'' (snd r)) = snd r @ '';''"
    using concat_split_chr[of "CHR '';''" "snd r"] by (simp add: terminated_def)
  with split_properties_plain[OF assms, of st "[]"] show ?thesis
    by (cases r) (simp add: split_rule_def)
qed

lemma split_rules_plain:
  "list_all (\<lambda>r. list_all plain_decl (split_chr CHR '';'' (snd r))) rs \<Longrightarrow>
   split_rules st acc rs = Inr (acc @ rs)"
  by (induction rs arbitrary: acc) (simp_all add: split_rule_plain)

lemma words_acc_chars: "x \<in> set (words_acc w s) \<Longrightarrow> set x \<subseteq> set w \<union> set s"
  by (induction w s arbitrary: x rule: words_acc.induct) (auto split: if_splits)

lemma split_ws_chars: "x \<in> set (split_ws v) \<Longrightarrow> set x \<subseteq> set v"
  using words_acc_chars[of x "[]" v] by (simp add: split_ws_def)

lemma assign_sides_clean:
  assumes "assign_sides st vs = Some s" "sides_clean st" "\<forall>t \<in> set vs. tok t"
  shows "sides_clean (Some s)"
proof -
  have n: "\<And>i. i < length vs \<Longrightarrow> tok (vs ! i)" using assms(3) by simp
  from assms(1,2) show ?thesis
    by (auto simp: assign_sides_def sides_clean_def n split: if_splits)
qed

lemma count_chr_append: "count_chr c (a @ b) = count_chr c a + count_chr c b"
  by (simp add: count_chr_def)

lemma count_chr_0: "c \<notin> set a \<Longrightarrow> count_chr c a = 0"
  by (auto simp: count_chr_def filter_empty_conv)

lemma takeWhile_until: "c \<notin> set a \<Longrightarrow> takeWhile (\<lambda>x. x \<noteq> c) (a @ c # b) = a"
  by (induction a) auto

lemma longhands_settled:
  assumes "is_spacing p" "sides_clean (Some s)"
  shows "list_all settled (longhands p s)"
proof -
  obtain a b c d where s: "s = (a, b, c, d)" by (cases s)
  from assms(2) s have t: "tok a" "tok b" "tok c" "tok d" by (auto simp: sides_clean_def)
  have "settled (p @ suffix @ '':'' @ v)"
    if "tok v" "suffix \<in> {''-top'', ''-right'', ''-bottom'', ''-left''}" for suffix v
  proof -
    from assms(1) that(2) have 1: "CHR '':'' \<notin> set (p @ suffix)" "CHR '';'' \<notin> set (p @ suffix)"
      by (auto simp: is_spacing_def)
    from 1(1) have "takeWhile (\<lambda>x. x \<noteq> CHR '':'') ((p @ suffix) @ CHR '':'' # v) = p @ suffix"
      by (rule takeWhile_until)
    then have dn: "decl_name (p @ suffix @ '':'' @ v) = p @ suffix" by (simp add: decl_name_def)
    from assms(1) that(2) have ns: "\<not> is_spacing (p @ suffix)" by (auto simp: is_spacing_def)
    have "count_chr CHR '':'' (p @ suffix) = 0" using 1(1) by (rule count_chr_0)
    moreover have "count_chr CHR '':'' v = 0" using that(1) by (intro count_chr_0) (simp add: tok_def)
    moreover have "count_chr CHR '':'' '':'' = 1" by (simp add: count_chr_def)
    ultimately have "count_chr CHR '':'' ((p @ suffix) @ '':'' @ v) = 1"
      by (simp only: count_chr_append)
    with dn ns 1(2) that(1) show ?thesis
      by (simp add: settled_def plain_decl_def one_colon_def tok_def)
  qed
  from this[of a "''-top''"] this[of b "''-right''"] this[of c "''-bottom''"] this[of d "''-left''"] t
  show ?thesis by (simp add: longhands_def s)
qed

lemma in_tl_dropWhile: "x \<in> set (tl (dropWhile P xs)) \<Longrightarrow> x \<in> set xs"
proof -
  assume "x \<in> set (tl (dropWhile P xs))"
  then have "x \<in> set (dropWhile P xs)" by (cases "dropWhile P xs") auto
  then show ?thesis by (rule set_dropWhileD)
qed

lemma split_property_settled:
  assumes "split_property st d = Inr (st', s)" "sides_clean st" "CHR '';'' \<notin> set d"
  shows "sides_clean st' \<and> (\<exists>chunk. s = terminated chunk \<and> chunk \<noteq> [] \<and> list_all settled chunk)"
proof -
  from assms(1) have oc: "one_colon d" using split_property_bad[of d st] by auto
  then have sp: "split_chr CHR '':'' d = [decl_name d, decl_value d]"
    by (simp add: one_colon_def split_chr_one decl_name_def decl_value_def)
  show ?thesis
  proof (cases "is_spacing (decl_name d)")
    case False
    with sp assms(1) have "s = terminated [d]" "st' = st"
      by (auto simp: split_property_def unpack2_def terminated_def)
    moreover from False oc assms(3) have "settled d" by (simp add: settled_def plain_decl_def)
    ultimately show ?thesis using assms(2) by auto
  next
    case True
    with sp assms(1) obtain sd where
      a: "assign_sides st (split_ws (decl_value d)) = Some sd"
      and s: "s = terminated (longhands (decl_name d) sd)" and st': "st' = Some sd"
      by (auto simp: split_property_def unpack2_def terminated_def longhands_def
               split: option.splits prod.splits)
    have "decl_value d \<in> set (split_chr CHR '':'' d)" using sp by simp
    then have "CHR '':'' \<notin> set (decl_value d)" by (rule split_chr_no_sep)
    moreover have "CHR '';'' \<notin> set (decl_value d)"
      using assms(3) by (auto simp: decl_value_def dest: in_tl_dropWhile)
    ultimately have "\<forall>t \<in> set (split_ws (decl_value d)). tok t"
      by (auto simp: tok_def dest: split_ws_chars)
    with a assms(2) have c: "sides_clean (Some sd)" by (rule assign_sides_clean)
    from longhands_settled[OF True c] s st' c show ?thesis
      by (auto simp: longhands_def split: prod.splits)
  qed
qed

lemma split_properties_settled:
  "split_properties st acc ds = Inr (st', out) \<Longrightarrow> sides_clean st \<Longrightarrow>
   \<forall>d \<in> set ds. CHR '';'' \<notin> set d \<Longrightarrow>
   sides_clean st' \<and> (\<exists>xs. out = acc @ terminated xs \<and> (ds \<noteq> [] \<longrightarrow> xs \<noteq> []) \<and> list_all settled xs)"
proof (induction ds arbitrary: st acc)
  case Nil
  then show ?case by (auto simp: terminated_def intro: exI[of _ "[]"])
next
  case (Cons d ds)
  from Cons.prems(1) obtain st1 s1 where 1: "split_property st d = Inr (st1, s1)"
    and 2: "split_properties st1 (acc @ s1) ds = Inr (st', out)"
    by (auto split: sum.splits)
  from split_property_settled[OF 1 Cons.prems(2)] Cons.prems(3) obtain chunk where
    c: "sides_clean st1" "s1 = terminated chunk" "chunk \<noteq> []" "list_all settled chunk" by auto
  from Cons.IH[OF 2 c(1)] Cons.prems(3) obtain xs where
    x: "sides_clean st'" "out = (acc @ s1) @ terminated xs" "list_all settled xs" by auto
  have "out = acc @ terminated (chunk @ xs)" using c(2) x(2) by (simp add: terminated_append)
  moreover have "chunk @ xs \<noteq> []" using c(3) by simp
  moreover have "list_all settled (chunk @ xs)" using c(4) x(3) by simp
  ultimately show ?case using x(1) by blast
qed

lemma split_chr_join_same:
  "xs \<noteq> [] \<Longrightarrow> \<forall>x \<in> set xs. CHR '';'' \<notin> set x \<Longrightarrow> split_chr CHR '';'' (join '';'' xs) = xs"
proof (induction xs)
  case Nil then show ?case by simp
next
  case (Cons x xs)
  show ?case
  proof (cases xs)
    case Nil
    with Cons.prems show ?thesis by (induction x) auto
  next
    case (Cons y ys)
    with Cons.IH Cons.prems have ih: "split_chr CHR '';'' (join '';'' (y # ys)) = y # ys" by simp
    from Cons.prems have "CHR '';'' \<notin> set x" by simp
    then have "split_chr CHR '';'' (x @ CHR '';'' # join '';'' (y # ys))
        = x # split_chr CHR '';'' (join '';'' (y # ys))" by (induction x) auto
    with ih Cons show ?thesis by simp
  qed
qed

lemma split_rule_settled:
  assumes "split_rule st r = Inr (st', r')" "sides_clean st"
  shows "sides_clean st' \<and> list_all plain_decl (split_chr CHR '';'' (snd r'))"
proof -
  obtain selector style where r: "r = (selector, style)" by (cases r)
  from assms(1) r obtain properties where
    1: "split_properties st [] (split_chr CHR '';'' style) = Inr (st', properties)"
    and 2: "r' = (selector, if last properties = CHR '';'' then butlast properties else properties)"
    by (auto simp: split_rule_def split: sum.splits if_splits)
  have "\<forall>d \<in> set (split_chr CHR '';'' style). CHR '';'' \<notin> set d" by (auto dest: split_chr_no_sep)
  from split_properties_settled[OF 1 assms(2) this] split_chr_neq_Nil[of "CHR '';''" style]
  obtain xs where x: "sides_clean st'" "properties = terminated xs" "xs \<noteq> []" "list_all settled xs"
    by auto
  from x(2,3) have "properties = join '';'' xs @ '';''" by (simp add: terminated_join)
  with 2 have r': "snd r' = join '';'' xs" by simp
  from x(4) have "\<forall>x \<in> set xs. CHR '';'' \<notin> set x" by (simp add: list_all_iff settled_def)
  from split_chr_join_same[OF x(3) this] x(4) have "list_all plain_decl (split_chr CHR '';'' (snd r'))"
    by (simp add: r' list_all_iff settled_def)
  with x(1) show ?thesis by simp
qed

lemma split_rules_settled:
  "split_rules st acc rs = Inr out \<Longrightarrow> sides_clean st \<Longrightarrow>
   list_all (\<lambda>r. list_all plain_decl (split_chr CHR '';'' (snd r))) acc \<Longrightarrow>
   list_all (\<lambda>r. list_all plain_decl (split_chr CHR '';'' (snd r))) out"
proof (induction rs arbitrary: st acc)
  case Nil then show ?case by simp
next
  case (Cons r rs)
  from Cons.prems(1) obtain st1 r1 where 1: "split_rule st r = Inr (st1, r1)"
    and 2: "split_rules st1 (acc @ [r1]) rs = Inr out"
    by (auto split: sum.splits)
  from split_rule_settled[OF 1 Cons.prems(2)] Cons.prems(3)
  show ?case by (intro Cons.IH[OF 2]) auto
qed

lemma expansion_output_plain:
  "split_spacing_properties rules = Inr orules \<Longrightarrow>
   list_all (\<lambda>r. list_all plain_decl (split_chr CHR '';'' (snd r))) orules"
  using split_rules_settled[of None "[]" rules orules]
  by (simp add: split_spacing_properties_def sides_clean_def)

lemma expansion_idempotent:
  "split_spacing_properties rules = Inr orules \<Longrightarrow> split_spacing_properties orules = Inr orules"
  using expansion_output_plain[of rules orules]
  by (simp add: split_spacing_properties_def split_rules_plain)


lemma expands_to_spec:
  "expands_to d chunk \<Longrightarrow> ok_decl d \<Longrightarrow> chunk = spec_expand_decl d"
  using spec_sides_Some_iff[of "split_ws (decl_value d)"]
  by (auto simp: expands_to_def ok_decl_def spec_expand_decl_def split: option.splits if_splits)

lemma chunks_spec:
  "list_all2 expands_to ds chunks \<Longrightarrow> list_all ok_decl ds \<Longrightarrow> chunks = map spec_expand_decl ds"
  by (induction rule: list_all2_induct) (auto dest: expands_to_spec)

lemma rule_expands_to_spec:
  "rule_expands_to r r' \<Longrightarrow> list_all ok_decl (split_chr CHR '';'' (snd r)) \<Longrightarrow>
   r' = spec_expand_rule r"
  by (cases r') (auto simp: rule_expands_to_def spec_expand_rule_def dest: chunks_spec)

lemma rules_expand_spec:
  "list_all2 rule_expands_to rs out \<Longrightarrow>
   list_all (\<lambda>r. list_all ok_decl (split_chr CHR '';'' (snd r))) rs \<Longrightarrow>
   out = map spec_expand_rule rs"
  by (induction rule: list_all2_induct) (auto dest: rule_expands_to_spec)

lemma shorthand_expansion_function:
  assumes "list_all (\<lambda>r. list_all ok_decl (split_chr CHR '';'' (snd r))) rules"
  shows "split_spacing_properties rules = Inr (map spec_expand_rule rules)"
proof -
  from split_rules_ok[OF assms, of None "[]"] obtain out where
    o: "split_rules None [] rules = Inr out" by auto
  from split_rules_expands[OF o] have "list_all2 rule_expands_to rules out" by simp
  from rules_expand_spec[OF this assms] o show ?thesis by (simp add: split_spacing_properties_def)
qed

lemma eval_margin2:
  "split_spacing_properties [(''p'', ''margin:1px 2px'')] =
   Inr [(''p'', ''margin-top:1px;margin-right:2px;margin-bottom:1px;margin-left:2px'')]"
  by code_simp

lemma eval_margin_cases:
  "split_spacing_properties [(''p'', ''margin:1px''), (''p'', ''padding:1px 2px 3px''),
                             (''p'', ''margin:1px 2px 3px 4px'')] =
   Inr [(''p'', ''margin-top:1px;margin-right:1px;margin-bottom:1px;margin-left:1px''),
        (''p'', ''padding-top:1px;padding-right:2px;padding-bottom:3px;padding-left:2px''),
        (''p'', ''margin-top:1px;margin-right:2px;margin-bottom:3px;margin-left:4px'')]"
  by code_simp

text \<open>
  Claim C2, as amended.  Whenever shorthand expansion returns, it returns the rules in
  order with their selectors, and the declaration block of each is the list of what
  its declarations became (\<open>expands_to\<close>), joined by \<open>;\<close> without a space: a
  declaration whose name is exactly \<open>margin\<close> or \<open>padding\<close> and that has 1, 2, 3 or 4
  whitespace-separated values became the four longhand declarations \<open>-top\<close>,
  \<open>-right\<close>, \<open>-bottom\<close>, \<open>-left\<close> with the sides of \<open>spec_sides\<close> (one value for all
  four; top/bottom and left/right; top, left/right, bottom; top, right, bottom, left).
  And when every declaration has exactly one \<open>:\<close> and every such shorthand 1 to 4
  values, the expansion returns, and returns each rule expanded as \<open>spec_expand_rule\<close>
  says.
\<close>

theorem shorthand_expansion_correct:
  "(split_spacing_properties rules = Inr orules \<longrightarrow> list_all2 rule_expands_to rules orules) \<and>
   (list_all (\<lambda>r. list_all ok_decl (split_chr CHR '';'' (snd r))) rules \<longrightarrow>
      split_spacing_properties rules = Inr (map spec_expand_rule rules))"
  using split_rules_expands[of None "[]" rules orules] shorthand_expansion_function[of rules]
  by (simp add: split_spacing_properties_def)

lemma ok_margin_cases:
  "list_all (\<lambda>r. list_all ok_decl (split_chr CHR '';'' (snd r)))
     [(''p'', ''margin:1px''), (''p'', ''padding:1px 2px 3px''), (''p'', ''margin:1px 2px 3px 4px'')]"
  by (simp add: ok_decl_def one_colon_def count_chr_def is_spacing_def decl_name_def
        decl_value_def split_ws_def is_space_def)

theorem shorthand_expansion_correct_witness:
  "split_spacing_properties [(''p'', ''margin:1px 2px'')] =
     Inr [(''p'', ''margin-top:1px;margin-right:2px;margin-bottom:1px;margin-left:2px'')] \<and>
   list_all2 rule_expands_to [(''p'', ''margin:1px 2px'')]
     [(''p'', ''margin-top:1px;margin-right:2px;margin-bottom:1px;margin-left:2px'')] \<and>
   list_all (\<lambda>r. list_all ok_decl (split_chr CHR '';'' (snd r)))
     [(''p'', ''margin:1px''), (''p'', ''padding:1px 2px 3px''), (''p'', ''margin:1px 2px 3px 4px'')] \<and>
   map spec_expand_rule
     [(''p'', ''margin:1px''), (''p'', ''padding:1px 2px 3px''), (''p'', ''margin:1px 2px 3px 4px'')] =
     [(''p'', ''margin-top:1px;margin-right:1px;margin-bottom:1px;margin-left:1px''),
      (''p'', ''padding-top:1px;padding-right:2px;padding-bottom:3px;padding-left:2px''),
      (''p'', ''margin-top:1px;margin-right:2px;margin-bottom:3px;margin-left:4px'')]"
proof -
  note a = shorthand_expansion_correct[of "[(''p'', ''margin:1px 2px'')]"
      "[(''p'', ''margin-top:1px;margin-right:2px;margin-bottom:1px;margin-left:2px'')]"]
  note b = shorthand_expansion_correct[of "[(''p'', ''margin:1px''), (''p'', ''padding:1px 2px 3px''),
      (''p'', ''margin:1px 2px 3px 4px'')]" "[]"]
  from a eval_margin2 have 1: "list_all2 rule_expands_to [(''p'', ''margin:1px 2px'')]
     [(''p'', ''margin-top:1px;margin-right:2px;margin-bottom:1px;margin-left:2px'')]" by blast
  from b ok_margin_cases have "split_spacing_properties [(''p'', ''margin:1px''),
      (''p'', ''padding:1px 2px 3px''), (''p'', ''margin:1px 2px 3px 4px'')] =
     Inr (map spec_expand_rule [(''p'', ''margin:1px''), (''p'', ''padding:1px 2px 3px''),
      (''p'', ''margin:1px 2px 3px 4px'')])" by blast
  with eval_margin_cases have 2: "map spec_expand_rule
     [(''p'', ''margin:1px''), (''p'', ''padding:1px 2px 3px''), (''p'', ''margin:1px 2px 3px 4px'')] =
     [(''p'', ''margin-top:1px;margin-right:1px;margin-bottom:1px;margin-left:1px''),
      (''p'', ''padding-top:1px;padding-right:2px;padding-bottom:3px;padding-left:2px''),
      (''p'', ''margin-top:1px;margin-right:2px;margin-bottom:3px;margin-left:4px'')]"
    by (simp del: list.map)
  from eval_margin2 1 ok_margin_cases 2 show ?thesis by blast
qed

text \<open>
  Claim C2 as stated fails.  The longhands of \<open>margin:1px 2px\<close> are joined by \<open>;\<close>
  and not, as the claim writes them, by \<open>;\<close> and a space.  A rule with a shorthand
  and a declaration without \<open>:\<close> is not expanded; the expansion raises.  And the
  name of a declaration is compared as it stands: the style sheet
  \<open>p { margin : 1px 2px }\<close> gives the declaration \<open>margin :1px 2px\<close>, which the
  expansion returns as it is, while the merge reads it as a declaration of \<open>margin\<close>.
\<close>

theorem shorthand_expansion_counterexample:
  "split_spacing_properties [(''p'', ''margin:1px 2px'')] =
     Inr [(''p'', ''margin-top:1px;margin-right:2px;margin-bottom:1px;margin-left:2px'')] \<and>
   split_spacing_properties [(''p'', ''margin:1px 2px'')] \<noteq>
     Inr [(''p'', ''margin-top:1px; margin-right:2px; margin-bottom:1px; margin-left:2px'')] \<and>
   split_spacing_properties [(''p'', ''margin:1px 2px;color'')] = Inl ValueError \<and>
   parse_style_rules default_config ''p { margin : 1px 2px }'' = ([(''p'', ''margin :1px 2px'')], []) \<and>
   split_spacing_properties [(''p'', ''margin :1px 2px'')] = Inr [(''p'', ''margin :1px 2px'')] \<and>
   parse_declarations ''margin :1px 2px'' = Inr [(''margin'', ''1px 2px'')]"
  by code_simp

lemma plain_ex: "list_all (\<lambda>r. list_all plain_decl (split_chr CHR '';'' (snd r)))
     [(''p'', ''color:red;margin-top:1px''), (''h1'', ''font-size:2px'')]"
  by (simp add: plain_decl_def one_colon_def count_chr_def is_spacing_def decl_name_def)

text \<open>
  Claim C7, as amended.  When every declaration of every rule has exactly one \<open>:\<close> and
  none is named \<open>margin\<close> or \<open>padding\<close>, shorthand expansion returns the rules
  unchanged.  Every list of rules that the expansion returns is of that kind, so
  expanding it once more returns it unchanged.
\<close>

theorem expansion_unchanged_without_shorthand:
  "(list_all (\<lambda>r. list_all plain_decl (split_chr CHR '';'' (snd r))) rules \<longrightarrow>
      split_spacing_properties rules = Inr rules) \<and>
   (split_spacing_properties rules = Inr orules \<longrightarrow>
      list_all (\<lambda>r. list_all plain_decl (split_chr CHR '';'' (snd r))) orules \<and>
      split_spacing_properties orules = Inr orules)"
  using expansion_output_plain[of rules orules] expansion_idempotent[of rules orules]
  by (simp add: split_spacing_properties_def split_rules_plain)

theorem expansion_unchanged_without_shorthand_witness:
  "list_all (\<lambda>r. list_all plain_decl (split_chr CHR '';'' (snd r)))
     [(''p'', ''color:red;margin-top:1px''), (''h1'', ''font-size:2px'')] \<and>
   split_spacing_properties [(''p'', ''color:red;margin-top:1px''), (''h1'', ''font-size:2px'')] =
     Inr [(''p'', ''color:red;margin-top:1px''), (''h1'', ''font-size:2px'')] \<and>
   split_spacing_properties [(''p'', ''margin:1px 2px'')] =
     Inr [(''p'', ''margin-top:1px;margin-right:2px;margin-bottom:1px;margin-left:2px'')] \<and>
   split_spacing_properties
     [(''p'', ''margin-top:1px;margin-right:2px;margin-bottom:1px;margin-left:2px'')] =
     Inr [(''p'', ''margin-top:1px;margin-right:2px;margin-bottom:1px;margin-left:2px'')]"
  using expansion_unchanged_without_shorthand
          [of "[(''p'', ''color:red;margin-top:1px''), (''h1'', ''font-size:2px'')]" "[]"]
        expansion_unchanged_without_shorthand
          [of "[(''p'', ''margin:1px 2px'')]"
              "[(''p'', ''margin-top:1px;margin-right:2px;margin-bottom:1px;margin-left:2px'')]"]
        plain_ex eval_margin2
  by simp

text \<open>
  Claim C7 as stated fails: a declaration block without any shorthand whose declaration
  has no \<open>:\<close>, or more than one, is not returned unchanged; the expansion raises.
\<close>

theorem expansion_unchanged_counterexample:
  "split_chr CHR '';'' ''color'' = [''color''] \<and> \<not> is_spacing (decl_name ''color'') \<and>
   split_spacing_properties [(''p'', ''color'')] = Inl ValueError \<and>
   split_chr CHR '';'' ''background:url(http://x/y.png)'' = [''background:url(http://x/y.png)''] \<and>
   \<not> is_spacing (decl_name ''background:url(http://x/y.png)'') \<and>
   split_spacing_properties [(''p'', ''background:url(http://x/y.png)'')] = Inl ValueError"
  by (simp add: is_spacing_def decl_name_def split_spacing_properties_def split_rule_def
        split_property_def unpack2_def)

text \<open>
  Shorthand expansion raises whenever some declaration of some rule does not have
  exactly one \<open>:\<close>; it returns when every declaration has exactly one \<open>:\<close> and
  every \<open>margin\<close> or \<open>padding\<close> declaration has 1 to 4 values.
\<close>

lemma expansion_fails_or_succeeds:
  "((\<exists>r \<in> set rules. \<exists>d \<in> set (split_chr CHR '';'' (snd r)). count_chr CHR '':'' d \<noteq> 1) \<longrightarrow>
      split_spacing_properties rules = Inl ValueError \<or>
      split_spacing_properties rules = Inl UnboundLocalError) \<and>
   (list_all (\<lambda>r. list_all ok_decl (split_chr CHR '';'' (snd r))) rules \<longrightarrow>
      (\<exists>orules. split_spacing_properties rules = Inr orules))"
proof (intro conjI impI)
  assume "\<exists>r \<in> set rules. \<exists>d \<in> set (split_chr CHR '';'' (snd r)). count_chr CHR '':'' d \<noteq> 1"
  then have "\<exists>r \<in> set rules. \<exists>d \<in> set (split_chr CHR '';'' (snd r)). \<not> one_colon d"
    by (simp add: one_colon_def)
  from split_rules_bad[OF this, of None "[]"] obtain e where
    e: "split_spacing_properties rules = Inl e" by (auto simp: split_spacing_properties_def)
  then have "e = ValueError \<or> e = UnboundLocalError"
    using split_rules_errors[of None "[]" rules e] by (simp add: split_spacing_properties_def)
  with e show "split_spacing_properties rules = Inl ValueError \<or>
      split_spacing_properties rules = Inl UnboundLocalError" by auto
next
  assume "list_all (\<lambda>r. list_all ok_decl (split_chr CHR '';'' (snd r))) rules"
  from split_rules_ok[OF this, of None "[]"]
  show "\<exists>orules. split_spacing_properties rules = Inr orules"
    by (simp add: split_spacing_properties_def)
qed

lemma expansion_fails_or_succeeds_example:
  "count_chr CHR '':'' ''a:b:c'' \<noteq> 1 \<and>
   (split_spacing_properties [(''p'', ''color:red;a:b:c'')] = Inl ValueError \<or>
    split_spacing_properties [(''p'', ''color:red;a:b:c'')] = Inl UnboundLocalError) \<and>
   list_all ok_decl (split_chr CHR '';'' ''color:red;margin:1px 2px 3px'') \<and>
   (\<exists>orules. split_spacing_properties [(''p'', ''color:red;margin:1px 2px 3px'')] = Inr orules)"
  using expansion_fails_or_succeeds[of "[(''p'', ''color:red;a:b:c'')]"]
        expansion_fails_or_succeeds[of "[(''p'', ''color:red;margin:1px 2px 3px'')]"]
  by (simp add: count_chr_def ok_decl_def one_colon_def is_spacing_def decl_name_def
        decl_value_def split_ws_def is_space_def)

text \<open>
  Claim C8 fails on the code in its second half.  The \<open>if/elif\<close> chain on the number
  of values of a shorthand has no \<open>else\<close>: with no value, or more than four, the sides
  are not assigned.  \<open>margin:\<close> and \<open>margin:0 0 0 0 !important\<close> have exactly one
  \<open>:\<close>, and the expansion raises \<open>UnboundLocalError\<close> instead of returning; after
  an earlier shorthand it returns, with the sides of that earlier shorthand.
\<close>

theorem shorthand_sides_unassigned:
  "count_chr CHR '':'' ''margin:'' = 1 \<and>
   split_spacing_properties [(''p'', ''margin:'')] = Inl UnboundLocalError \<and>
   count_chr CHR '':'' ''margin:0 0 0 0 !important'' = 1 \<and>
   split_spacing_properties [(''p'', ''margin:0 0 0 0 !important'')] = Inl UnboundLocalError \<and>
   split_spacing_properties
     [(''h1'', ''margin:1px 2px''), (''p'', ''margin:0 0 0 0 !important'')] =
     Inr [(''h1'', ''margin-top:1px;margin-right:2px;margin-bottom:1px;margin-left:2px''),
          (''p'', ''margin-top:1px;margin-right:2px;margin-bottom:1px;margin-left:2px'')]"
  by code_simp

section \<open>The style merge engine: proofs\<close>

subsection \<open>Stripping\<close>

lemma set_strip: "x \<in> set (strip s) \<Longrightarrow> x \<in> set s"
  by (auto simp: strip_def dest!: set_dropWhileD)

lemma strip_ends:
  assumes "strip s \<noteq> []"
  shows "\<not> is_space (hd (strip s)) \<and> \<not> is_space (last (strip s))"
proof -
  define t where "t = dropWhile is_space s"
  define u where "u = dropWhile is_space (rev t)"
  have s: "strip s = rev u" by (simp add: strip_def t_def u_def)
  with assms have u: "u \<noteq> []" by simp
  then have 1: "\<not> is_space (hd u)" unfolding u_def by (rule hd_dropWhile)
  from u have t: "t \<noteq> []" by (auto simp: u_def)
  then have 2: "\<not> is_space (hd t)" unfolding t_def by (rule hd_dropWhile)
  from t have "hd t \<in> set (rev t)" by simp
  from dropWhile_last[of "hd t" "rev t" is_space, OF this 2] have "last u = last (rev t)" by (simp add: u_def)
  with t have "last u = hd t" by (simp add: last_rev)
  with 1 2 u s show ?thesis by (simp add: hd_rev last_rev)
qed

lemma strip_id: "s = [] \<or> (\<not> is_space (hd s) \<and> \<not> is_space (last s)) \<Longrightarrow> strip s = s"
proof (cases "s = []")
  case True then show ?thesis by (simp add: strip_def)
next
  case False
  assume "s = [] \<or> (\<not> is_space (hd s) \<and> \<not> is_space (last s))"
  with False have h: "\<not> is_space (hd s)" and l: "\<not> is_space (last s)" by auto
  from h have 1: "dropWhile is_space s = s" by (simp add: dropWhile_eq_self_iff)
  from l False have "dropWhile is_space (rev s) = rev s"
    by (simp add: dropWhile_eq_self_iff hd_rev)
  with 1 show ?thesis by (simp add: strip_def)
qed

lemma strip_strip: "strip (strip s) = strip s"
  using strip_ends[of s] by (intro strip_id) auto

lemma strip_space_Cons: "is_space c \<Longrightarrow> strip (c # s) = strip s"
  by (simp add: strip_def)

subsection \<open>Splitting and joining\<close>

lemma split_chr_none: "c \<notin> set a \<Longrightarrow> split_chr c a = [a]"
  by (induction a) auto

lemma split_chr_append: "c \<notin> set a \<Longrightarrow> split_chr c (a @ c # b) = a # split_chr c b"
  by (induction a) auto

lemma split_chr_join:
  "xs \<noteq> [] \<Longrightarrow> \<forall>x \<in> set xs. CHR '';'' \<notin> set x \<Longrightarrow>
   split_chr CHR '';'' (join ''; '' xs) = hd xs # map ((#) CHR '' '') (tl xs)"
proof (induction xs)
  case Nil then show ?case by simp
next
  case (Cons x xs)
  show ?case
  proof (cases xs)
    case Nil with Cons.prems show ?thesis by (simp add: split_chr_none)
  next
    case (Cons y ys)
    with Cons.IH Cons.prems
    have ih: "split_chr CHR '';'' (join ''; '' (y # ys)) = y # map ((#) CHR '' '') ys" by simp
    have "join ''; '' (x # y # ys) = x @ CHR '';'' # (CHR '' '' # join ''; '' (y # ys))" by simp
    then have "split_chr CHR '';'' (join ''; '' (x # y # ys))
        = x # split_chr CHR '';'' (CHR '' '' # join ''; '' (y # ys))"
      using Cons.prems by (simp add: split_chr_append)
    with ih Cons show ?thesis by simp
  qed
qed

lemma split1_fmt: "CHR '':'' \<notin> set k \<Longrightarrow> split1 CHR '':'' (k @ '':'' @ v) = [k, v]"
  by (induction k) (auto simp: split1_def)

subsection \<open>Dictionaries\<close>

lemma map_of_dict_set: "map_of (dict_set d k v) = (map_of d)(k \<mapsto> v)"
  by (induction d) (auto simp: fun_eq_iff)

lemma set_dict_set: "set (dict_set d k v) \<subseteq> insert (k, v) (set d)"
  by (induction d) (auto split: if_splits)

lemma map_fst_dict_set:
  "map fst (dict_set d k v) = (if k \<in> fst ` set d then map fst d else map fst d @ [k])"
  by (induction d) (auto simp: rev_image_eqI)

lemma fst_set_dict_set: "fst ` set (dict_set d k v) = insert k (fst ` set d)"
  using arg_cong[OF map_fst_dict_set[of d k v], of set] by (auto simp del: map_fst_dict_set)

lemma distinct_dict_set: "distinct (map fst d) \<Longrightarrow> distinct (map fst (dict_set d k v))"
  by (simp add: map_fst_dict_set)

lemma dict_set_new: "k \<notin> fst ` set d \<Longrightarrow> dict_set d k v = d @ [(k, v)]"
  by (induction d) auto

lemma map_of_merge_into:
  "map_of (merge_into m xs) k = (case map_of m k of Some v \<Rightarrow> Some v | None \<Rightarrow> map_of xs k)"
proof (induction xs arbitrary: m)
  case Nil then show ?case by (simp split: option.splits)
next
  case (Cons a xs)
  obtain k' v' where a: "a = (k', v')" by (cases a)
  show ?case using Cons.IH[of "dict_set m k' v'"] Cons.IH[of m]
    by (auto simp: a map_of_dict_set split: option.splits)
qed

lemma clean_dict_set:
  assumes "clean d" "strip k = k" "CHR '':'' \<notin> set k" "CHR '';'' \<notin> set k" "strip v = v" "CHR '';'' \<notin> set v"
  shows "clean (dict_set d k v)"
  using assms set_dict_set[of d k v] by (auto simp: clean_def distinct_dict_set list_all_iff)

lemma clean_merge_into: "clean m \<Longrightarrow> clean xs \<Longrightarrow> clean (merge_into m xs)"
proof (induction xs arbitrary: m)
  case Nil then show ?case by simp
next
  case (Cons a xs)
  obtain k v where a: "a = (k, v)" by (cases a)
  from Cons.prems(2) have xs: "clean xs" by (auto simp: clean_def)
  from Cons.prems(2) a have "clean (dict_set m k v)"
    by (intro clean_dict_set[OF Cons.prems(1)]) (auto simp: clean_def)
  with Cons.IH xs Cons.prems(1) show ?case by (simp add: a)
qed

lemma clean_order: "mset d' = mset d \<Longrightarrow> clean d \<Longrightarrow> clean d'"
proof -
  assume m: "mset d' = mset d" and c: "clean d"
  from m have "mset (map fst d') = mset (map fst d)" by simp
  then have "distinct (map fst d') = distinct (map fst d)" by (rule mset_eq_imp_distinct_iff)
  moreover from m have "set d' = set d" by (rule mset_eq_setD)
  ultimately show ?thesis using c by (simp add: clean_def list_all_iff)
qed

lemma map_of_order: "mset d' = mset d \<Longrightarrow> distinct (map fst d) \<Longrightarrow> map_of d' = map_of d"
proof -
  assume m: "mset d' = mset d" and c: "distinct (map fst d)"
  from m have "mset (map fst d') = mset (map fst d)" by simp
  then have "distinct (map fst d') = distinct (map fst d)" by (rule mset_eq_imp_distinct_iff)
  moreover from m have "set d' = set d" by (rule mset_eq_setD)
  ultimately show ?thesis using c by (simp add: map_of_inject_set)
qed

subsection \<open>Parsing and writing declaration blocks\<close>

lemma store_declarations_clean:
  "store_declarations kvs acc = Inr d \<Longrightarrow> clean acc \<Longrightarrow>
   list_all (\<lambda>kv. case kv of [a, b] \<Rightarrow> CHR '':'' \<notin> set a \<and> CHR '';'' \<notin> set a \<and> CHR '';'' \<notin> set b
                   | _ \<Rightarrow> True) kvs \<Longrightarrow> clean d"
proof (induction kvs arbitrary: acc)
  case Nil then show ?case by simp
next
  case (Cons kv kvs)
  from Cons.prems(1) obtain a b where kv: "kv = [a, b]"
    and st: "store_declarations kvs (dict_set acc (strip a) (strip b)) = Inr d"
    by (auto simp: unpack2_Inr split: sum.splits)
  from Cons.prems(3) kv have "CHR '':'' \<notin> set a" "CHR '';'' \<notin> set a" "CHR '';'' \<notin> set b" by auto
  then have "clean (dict_set acc (strip a) (strip b))"
    by (intro clean_dict_set[OF Cons.prems(2)]) (auto simp: strip_strip dest: set_strip)
  from Cons.IH[OF st this] Cons.prems(3) show ?case by simp
qed

lemma split1_clean:
  "CHR '';'' \<notin> set y \<Longrightarrow>
   (case split1 CHR '':'' y of [a, b] \<Rightarrow> CHR '':'' \<notin> set a \<and> CHR '';'' \<notin> set a \<and> CHR '';'' \<notin> set b
    | _ \<Rightarrow> True)"
  by (auto simp: split1_def dest!: set_takeWhileD list.set_sel(2)[rotated] dest: set_dropWhileD)

lemma parse_declarations_clean: "parse_declarations s = Inr d \<Longrightarrow> clean d"
proof (rule store_declarations_clean[of _ "[]"])
  show "clean []" by (simp add: clean_def)
  show "list_all (\<lambda>kv. case kv of [a, b] \<Rightarrow> CHR '':'' \<notin> set a \<and> CHR '';'' \<notin> set a \<and> CHR '';'' \<notin> set b
                   | _ \<Rightarrow> True)
        (map (\<lambda>x. split1 CHR '':'' (strip x)) (filter (\<lambda>x. strip x \<noteq> []) (split_chr CHR '';'' s)))"
    unfolding list_all_iff
  proof
    fix kv assume "kv \<in> set (map (\<lambda>x. split1 CHR '':'' (strip x)) (filter (\<lambda>x. strip x \<noteq> []) (split_chr CHR '';'' s)))"
    then obtain x where x: "x \<in> set (split_chr CHR '';'' s)" and kv: "kv = split1 CHR '':'' (strip x)"
      by auto
    from x have "CHR '';'' \<notin> set x" by (rule split_chr_no_sep)
    then have "CHR '';'' \<notin> set (strip x)" by (auto dest: set_strip)
    from split1_clean[OF this] kv
    show "case kv of [a, b] \<Rightarrow> CHR '':'' \<notin> set a \<and> CHR '';'' \<notin> set a \<and> CHR '';'' \<notin> set b | _ \<Rightarrow> True"
      by simp
  qed
qed (simp add: parse_declarations_def)

lemma format_declarations_fmt:
  "format_declarations ord d = join ''; '' (map fmt (items_order ord d))"
proof -
  have "(\<lambda>(k, v). k @ '':'' @ v) = fmt" by (auto simp: fmt_def)
  then show ?thesis by (simp add: format_declarations_def)
qed

lemma not_space_colon: "\<not> is_space CHR '':''"
  by (simp add: is_space_def)

lemma strip_fmt:
  assumes "strip k = k" "strip v = v"
  shows "strip (k @ '':'' @ v) = k @ '':'' @ v"
proof (rule strip_id, rule disjI2, rule conjI)
  show "\<not> is_space (hd (k @ '':'' @ v))"
    using strip_ends[of k] assms(1) by (cases k) (auto simp: not_space_colon)
  show "\<not> is_space (last (k @ '':'' @ v))"
    using strip_ends[of v] assms(2) by (cases "v = []") (auto simp: not_space_colon)
qed

lemma store_declarations_fmt:
  "distinct (map fst (acc @ d)) \<Longrightarrow> list_all (\<lambda>(k, v). strip k = k \<and> strip v = v) d \<Longrightarrow>
   store_declarations (map (\<lambda>(k, v). [k, v]) d) acc = Inr (acc @ d)"
proof (induction d arbitrary: acc)
  case Nil then show ?case by simp
next
  case (Cons a d)
  obtain k v where a: "a = (k, v)" by (cases a)
  from Cons.prems a have "k \<notin> fst ` set acc" by auto
  then have 1: "dict_set acc k v = acc @ [(k, v)]" by (rule dict_set_new)
  from Cons.prems a have "distinct (map fst ((acc @ [(k, v)]) @ d))" by simp
  moreover from Cons.prems have "list_all (\<lambda>(k, v). strip k = k \<and> strip v = v) d" by simp
  ultimately have "store_declarations (map (\<lambda>(k, v). [k, v]) d) (acc @ [(k, v)])
      = Inr ((acc @ [(k, v)]) @ d)" by (rule Cons.IH)
  with 1 Cons.prems(2) a show ?case by (simp add: unpack2_def)
qed

lemma parse_format:
  assumes "clean d"
  shows "parse_declarations (join ''; '' (map fmt d)) = Inr d"
proof (cases d)
  case Nil
  then show ?thesis by (simp add: parse_declarations_def strip_def)
next
  case (Cons a d')
  have sp: "is_space CHR '' ''" by (simp add: is_space_def)
  have el: "\<And>kv. kv \<in> set d \<Longrightarrow> strip (fst kv) = fst kv \<and> CHR '':'' \<notin> set (fst kv) \<and>
      CHR '';'' \<notin> set (fst kv) \<and> strip (snd kv) = snd kv \<and> CHR '';'' \<notin> set (snd kv)"
    using assms by (auto simp: clean_def list_all_iff)
  have f1: "strip (fmt kv) = fmt kv" if "kv \<in> set d" for kv
    using el[OF that] strip_fmt[of "fst kv" "snd kv"] by (simp add: fmt_def)
  have f2: "split1 CHR '':'' (fmt kv) = [fst kv, snd kv]" if "kv \<in> set d" for kv
    using el[OF that] split1_fmt[of "fst kv" "snd kv"] by (simp add: fmt_def)
  have f3: "\<And>kv. fmt kv \<noteq> []" by (simp add: fmt_def)
  have "\<forall>x \<in> set (map fmt d). CHR '';'' \<notin> set x" using el by (auto simp: fmt_def)
  moreover have "map fmt d \<noteq> []" using Cons by simp
  ultimately have "split_chr CHR '';'' (join ''; '' (map fmt d))
      = hd (map fmt d) # map ((#) CHR '' '') (tl (map fmt d))" by (rule split_chr_join[rotated])
  then have s: "split_chr CHR '';'' (join ''; '' (map fmt d))
      = fmt a # map (\<lambda>kv. CHR '' '' # fmt kv) d'" using Cons by simp
  have k: "filter (\<lambda>x. strip x \<noteq> []) (fmt a # map (\<lambda>kv. CHR '' '' # fmt kv) d')
      = fmt a # map (\<lambda>kv. CHR '' '' # fmt kv) d'"
    using f1 f3 Cons by (auto simp: filter_id_conv strip_space_Cons[OF sp])
  have "map (\<lambda>x. split1 CHR '':'' (strip x)) (fmt a # map (\<lambda>kv. CHR '' '' # fmt kv) d')
      = map (\<lambda>kv. [fst kv, snd kv]) d"
    using f1 f2 Cons by (auto simp: strip_space_Cons[OF sp])
  also have "\<dots> = map (\<lambda>(k, v). [k, v]) d" by (simp add: case_prod_beta)
  finally have m: "map (\<lambda>x. split1 CHR '':'' (strip x)) (fmt a # map (\<lambda>kv. CHR '' '' # fmt kv) d')
      = map (\<lambda>(k, v). [k, v]) d" .
  have "store_declarations (map (\<lambda>(k, v). [k, v]) d) [] = Inr ([] @ d)"
    using assms by (intro store_declarations_fmt) (auto simp: clean_def list_all_iff)
  with s k m show ?thesis by (simp add: parse_declarations_def)
qed

lemma merge_flat:
  assumes ok: "order_ok ord" and flat: "findall_grouping old = []"
    and olds: "parse_declarations old = Inr olds" and news: "parse_declarations new = Inr news"
  shows "\<exists>r d. merge_styles ord old new [] = Inr r \<and> parse_declarations r = Inr d \<and>
           (\<forall>k. map_of d k = (case map_of news k of Some v \<Rightarrow> Some v | None \<Rightarrow> map_of olds k))"
proof -
  define merged where "merged = merge_into news (items_order ord olds)"
  from ok have io: "\<And>d. mset (items_order ord d) = mset d" by (simp add: order_ok_def)
  have co: "clean olds" and cn: "clean news"
    using olds news by (auto dest: parse_declarations_clean)
  have "clean (items_order ord olds)" using io co by (rule clean_order)
  with cn have cm: "clean merged" unfolding merged_def by (rule clean_merge_into)
  have cf: "clean (items_order ord merged)" using io cm by (rule clean_order)
  have g: "merge_groups ord old new [] = Inr [([], merged)]"
    using flat olds news by (simp add: merge_groups_def parse_old_def dict_get_def merged_def)
  then have r: "merge_styles ord old new [] = Inr (join ''; '' (map fmt (items_order ord merged)))"
    by (simp add: merge_styles_def serialize_groups_def format_declarations_fmt)
  have p: "parse_declarations (join ''; '' (map fmt (items_order ord merged)))
      = Inr (items_order ord merged)" using cf by (rule parse_format)
  have "map_of (items_order ord merged) = map_of merged"
    using io cm by (intro map_of_order) (auto simp: clean_def)
  moreover have "map_of (items_order ord olds) = map_of olds"
    using io co by (intro map_of_order) (auto simp: clean_def)
  ultimately have "\<forall>k. map_of (items_order ord merged) k
      = (case map_of news k of Some v \<Rightarrow> Some v | None \<Rightarrow> map_of olds k)"
    by (simp add: merged_def map_of_merge_into split: option.splits)
  with r p show ?thesis by blast
qed

lemma mset_single: "mset xs = mset [a] \<Longrightarrow> xs = [a]"
  by simp

lemma mset_pair: "mset xs = mset [a, b] \<Longrightarrow> xs = [a, b] \<or> xs = [b, a]"
proof -
  assume a: "mset xs = mset [a, b]"
  then have "length xs = 2" using mset_eq_length[OF a] by simp
  then obtain x y where xs: "xs = [x, y]"
    by (cases xs; cases "tl xs") auto
  with a show ?thesis by (auto simp: add_eq_conv_ex)
qed

lemma merge_flat_text:
  assumes flat: "findall_grouping old = []"
    and olds: "parse_declarations old = Inr olds" and news: "parse_declarations new = Inr news"
  shows "merge_styles ord old new [] =
     Inr (join ''; '' (map fmt (items_order ord (merge_into news (items_order ord olds)))))"
  using flat olds news
  by (simp add: merge_styles_def serialize_groups_def format_declarations_fmt
        merge_groups_def parse_old_def dict_get_def)

lemma ex1_text:
  assumes ok: "order_ok ord"
  shows "merge_styles ord ''color:red'' ''color:blue; font-weight:bold'' [] = Inr ''color:blue; font-weight:bold'' \<or>
         merge_styles ord ''color:red'' ''color:blue; font-weight:bold'' [] = Inr ''font-weight:bold; color:blue''"
proof -
  from ok have io: "\<And>d. mset (items_order ord d) = mset d" by (simp add: order_ok_def)
  have f: "findall_grouping ''color:red'' = []" by code_simp
  have o: "parse_declarations ''color:red'' = Inr [(''color'', ''red'')]" by code_simp
  have n: "parse_declarations ''color:blue; font-weight:bold''
      = Inr [(''color'', ''blue''), (''font-weight'', ''bold'')]" by code_simp
  have 1: "items_order ord [(''color'', ''red'')] = [(''color'', ''red'')]"
    using io[of "[(''color'', ''red'')]"] by simp
  have 2: "merge_into [(''color'', ''blue''), (''font-weight'', ''bold'')] [(''color'', ''red'')]
      = [(''color'', ''blue''), (''font-weight'', ''bold'')]" by simp
  from mset_pair[OF io[of "[(''color'', ''blue''), (''font-weight'', ''bold'')]"]]
  show ?thesis
    unfolding merge_flat_text[OF f o n] 1 2 by (auto simp: fmt_def)
qed

lemma ex2_text:
  assumes ok: "order_ok ord"
  shows "merge_styles ord ''color:red; margin:1px'' ''color:blue'' [] = Inr ''color:blue; margin:1px'' \<or>
         merge_styles ord ''color:red; margin:1px'' ''color:blue'' [] = Inr ''margin:1px; color:blue''"
proof -
  from ok have io: "\<And>d. mset (items_order ord d) = mset d" by (simp add: order_ok_def)
  have f: "findall_grouping ''color:red; margin:1px'' = []" by code_simp
  have o: "parse_declarations ''color:red; margin:1px'' = Inr [(''color'', ''red''), (''margin'', ''1px'')]" by code_simp
  have n: "parse_declarations ''color:blue'' = Inr [(''color'', ''blue'')]" by code_simp
  have 2: "merge_into [(''color'', ''blue'')] (items_order ord [(''color'', ''red''), (''margin'', ''1px'')])
      = [(''color'', ''blue''), (''margin'', ''1px'')]"
    using mset_pair[OF io[of "[(''color'', ''red''), (''margin'', ''1px'')]"]] by auto
  from mset_pair[OF io[of "[(''color'', ''blue''), (''margin'', ''1px'')]"]]
  show ?thesis
    unfolding merge_flat_text[OF f o n] 2 by (auto simp: fmt_def)
qed

text \<open>
  Claim C1.  Whatever the iteration order of the dictionaries: for a flat \<open>old\<close> (no
  group in it) and declaration-block texts \<open>old\<close> and \<open>new\<close>, \<open>merge(old, new, "")\<close> returns
  a text that reads back as a declaration block in which every property of \<open>new\<close> has
  the value of \<open>new\<close> and every other property of \<open>old\<close> the value of \<open>old\<close> (and
  there is no further property).  The result for \<open>old="color:red"\<close>,
  \<open>new="color:blue; font-weight:bold"\<close> contains \<open>color:blue\<close> and \<open>font-weight:bold\<close>
  and not \<open>color:red\<close>; the one for \<open>old="color:red; margin:1px"\<close>, \<open>new="color:blue"\<close>
  contains \<open>margin:1px\<close>.
\<close>

theorem merge_new_over_old:
  assumes "order_ok ord"
  shows "(findall_grouping old = [] \<and> parse_declarations old = Inr olds \<and>
          parse_declarations new = Inr news \<longrightarrow>
          (\<exists>r d. merge_styles ord old new [] = Inr r \<and> parse_declarations r = Inr d \<and>
             (\<forall>k. map_of d k = (case map_of news k of Some v \<Rightarrow> Some v | None \<Rightarrow> map_of olds k)))) \<and>
         (\<exists>r. merge_styles ord ''color:red'' ''color:blue; font-weight:bold'' [] = Inr r \<and>
              contains r ''color:blue'' \<and> contains r ''font-weight:bold'' \<and> \<not> contains r ''color:red'') \<and>
         (\<exists>r. merge_styles ord ''color:red; margin:1px'' ''color:blue'' [] = Inr r \<and>
              contains r ''margin:1px'' \<and> contains r ''color:blue'' \<and> \<not> contains r ''color:red'')"
proof (intro conjI impI)
  assume "findall_grouping old = [] \<and> parse_declarations old = Inr olds \<and>
          parse_declarations new = Inr news"
  with assms show "\<exists>r d. merge_styles ord old new [] = Inr r \<and> parse_declarations r = Inr d \<and>
             (\<forall>k. map_of d k = (case map_of news k of Some v \<Rightarrow> Some v | None \<Rightarrow> map_of olds k))"
    by (intro merge_flat) auto
next
  have a: "contains ''color:blue; font-weight:bold'' ''color:blue'' \<and>
           contains ''color:blue; font-weight:bold'' ''font-weight:bold'' \<and>
           \<not> contains ''color:blue; font-weight:bold'' ''color:red''" by simp
  have b: "contains ''font-weight:bold; color:blue'' ''color:blue'' \<and>
           contains ''font-weight:bold; color:blue'' ''font-weight:bold'' \<and>
           \<not> contains ''font-weight:bold; color:blue'' ''color:red''" by simp
  from ex1_text[OF assms] a b
  show "\<exists>r. merge_styles ord ''color:red'' ''color:blue; font-weight:bold'' [] = Inr r \<and>
              contains r ''color:blue'' \<and> contains r ''font-weight:bold'' \<and> \<not> contains r ''color:red''"
    by blast
next
  have a: "contains ''color:blue; margin:1px'' ''margin:1px'' \<and>
           contains ''color:blue; margin:1px'' ''color:blue'' \<and>
           \<not> contains ''color:blue; margin:1px'' ''color:red''" by simp
  have b: "contains ''margin:1px; color:blue'' ''margin:1px'' \<and>
           contains ''margin:1px; color:blue'' ''color:blue'' \<and>
           \<not> contains ''margin:1px; color:blue'' ''color:red''" by simp
  from ex2_text[OF assms] a b
  show "\<exists>r. merge_styles ord ''color:red; margin:1px'' ''color:blue'' [] = Inr r \<and>
              contains r ''margin:1px'' \<and> contains r ''color:blue'' \<and> \<not> contains r ''color:red''"
    by blast
qed

lemma order_ok_insertion: "order_ok insertion_order"
  by (simp add: order_ok_def insertion_order_def)

lemma flat_ex: "findall_grouping ''font-size:1px; color: red'' = [] \<and>
   parse_declarations ''font-size:1px; color: red'' = Inr [(''font-size'', ''1px''), (''color'', ''red'')] \<and>
   parse_declarations ''font-size:2px; font-weight: bold'' = Inr [(''font-size'', ''2px''), (''font-weight'', ''bold'')]"
  by code_simp

theorem merge_new_over_old_witness:
  "order_ok insertion_order \<and>
   findall_grouping ''font-size:1px; color: red'' = [] \<and>
   parse_declarations ''font-size:1px; color: red'' = Inr [(''font-size'', ''1px''), (''color'', ''red'')] \<and>
   parse_declarations ''font-size:2px; font-weight: bold'' = Inr [(''font-size'', ''2px''), (''font-weight'', ''bold'')] \<and>
   (\<exists>r d. merge_styles insertion_order ''font-size:1px; color: red'' ''font-size:2px; font-weight: bold'' [] = Inr r \<and>
      parse_declarations r = Inr d \<and>
      map_of d ''font-size'' = Some ''2px'' \<and> map_of d ''font-weight'' = Some ''bold'' \<and>
      map_of d ''color'' = Some ''red'')"
proof -
  from merge_new_over_old[OF order_ok_insertion, of "''font-size:1px; color: red''"
      "[(''font-size'', ''1px''), (''color'', ''red'')]" "''font-size:2px; font-weight: bold''"
      "[(''font-size'', ''2px''), (''font-weight'', ''bold'')]"] flat_ex
  obtain r d where r: "merge_styles insertion_order ''font-size:1px; color: red'' ''font-size:2px; font-weight: bold'' [] = Inr r"
    "parse_declarations r = Inr d"
    and m: "\<forall>k. map_of d k = (case map_of [(''font-size'', ''2px''), (''font-weight'', ''bold'')] k of Some v \<Rightarrow> Some v
               | None \<Rightarrow> map_of [(''font-size'', ''1px''), (''color'', ''red'')] k)"
    by blast
  from m have "map_of d ''font-size'' = Some ''2px'' \<and> map_of d ''font-weight'' = Some ''bold'' \<and>
      map_of d ''color'' = Some ''red''" by simp
  with r order_ok_insertion flat_ex show ?thesis by blast
qed

lemma match_group_Nil: "match_group [] = None"
  by (simp add: match_group_def)

lemma findall_match:
  "match_group s = Some (g, rest) \<Longrightarrow> findall_grouping s = g # findall_grouping rest"
  by (cases s) (simp_all add: match_group_Nil)

lemma match_group_props:
  "match_group s = Some ((k, c), rest) \<Longrightarrow> list_all is_key_char k \<and> c \<noteq> [] \<and> CHR ''}'' \<notin> set c"
  by (auto simp: match_group_def Let_def list_all_iff split: list.splits if_splits
           dest: set_takeWhileD)

lemma findall_grouping_props:
  "(k, c) \<in> set (findall_grouping s) \<Longrightarrow> list_all is_key_char k \<and> c \<noteq> [] \<and> CHR ''}'' \<notin> set c"
proof (induction "length s" arbitrary: s rule: less_induct)
  case less
  show ?case
  proof (cases s)
    case Nil with less.prems show ?thesis by simp
  next
    case (Cons x xs)
    show ?thesis
    proof (cases "match_group (x # xs)")
      case None
      with less.prems Cons have "(k, c) \<in> set (findall_grouping xs)" by simp
      with less.hyps[of xs] Cons show ?thesis by simp
    next
      case (Some a)
      obtain g rest where a: "a = (g, rest)" by (cases a)
      from Some a have "length rest < length s" unfolding Cons by (auto dest: match_group_shorter)
      from less.hyps[OF this] less.prems Some a Cons show ?thesis
        by (cases g) (auto dest: match_group_props)
    qed
  qed
qed

lemma not_key_brace: "\<not> is_key_char CHR ''{''"
  by (simp add: is_key_char_def is_word_char_def)

lemma match_group_regroup:
  assumes "list_all is_key_char k" "c \<noteq> []" "CHR ''}'' \<notin> set c"
  shows "match_group (k @ ''{'' @ c @ ''}'' @ r) = Some ((k, c), r)"
proof -
  have 1: "takeWhile is_key_char (k @ CHR ''{'' # c @ CHR ''}'' # r) = k"
    using assms(1) by (induction k) (auto simp: not_key_brace)
  have 2: "dropWhile is_key_char (k @ CHR ''{'' # c @ CHR ''}'' # r) = CHR ''{'' # c @ CHR ''}'' # r"
    using assms(1) by (induction k) (auto simp: not_key_brace)
  have 3: "takeWhile (\<lambda>x. x \<noteq> CHR ''}'') (c @ CHR ''}'' # r) = c"
    using assms(3) by (induction c) auto
  have 4: "dropWhile (\<lambda>x. x \<noteq> CHR ''}'') (c @ CHR ''}'' # r) = CHR ''}'' # r"
    using assms(3) by (induction c) auto
  show ?thesis using assms(2) by (simp add: match_group_def Let_def 1 2 3 4)
qed

lemma findall_regroup:
  "list_all (\<lambda>(k, c). list_all is_key_char k \<and> c \<noteq> [] \<and> CHR ''}'' \<notin> set c) gs \<Longrightarrow>
   findall_grouping (regroup gs) = gs"
proof (induction gs)
  case Nil then show ?case by (simp add: regroup_def)
next
  case (Cons a gs)
  obtain k c where a: "a = (k, c)" by (cases a)
  from Cons.prems a have p: "list_all is_key_char k" "c \<noteq> []" "CHR ''}'' \<notin> set c" by auto
  have "regroup (a # gs) = k @ ''{'' @ c @ ''}'' @ regroup gs" by (simp add: regroup_def a)
  with match_group_regroup[OF p, of "regroup gs"]
  have "findall_grouping (regroup (a # gs)) = (k, c) # findall_grouping (regroup gs)"
    by (simp add: findall_match)
  with Cons a show ?case by simp
qed

lemma findall_regroup_findall: "findall_grouping (regroup (findall_grouping s)) = findall_grouping s"
  by (rule findall_regroup) (auto simp: list_all_iff dest: findall_grouping_props)

text \<open>
  Claim C10.  When \<open>old\<close> contains at least one group \<open>key{content}\<close>, merging into it
  is merging into the text of its groups alone: whatever stands outside the groups
  does not reach the result.
\<close>

theorem only_groups_of_old_count:
  "findall_grouping old \<noteq> [] \<Longrightarrow>
   merge_styles ord old new klass = merge_styles ord (regroup (findall_grouping old)) new klass"
proof -
  assume "findall_grouping old \<noteq> []"
  then have "parse_old (regroup (findall_grouping old)) = parse_old old"
    by (simp add: parse_old_def findall_regroup_findall)
  then have "merge_groups ord (regroup (findall_grouping old)) new klass = merge_groups ord old new klass"
    by (simp add: merge_groups_def split: sum.splits)
  then show ?thesis by (simp add: merge_styles_def)
qed

theorem only_groups_of_old_count_witness:
  "findall_grouping ''color:red; :hover{a:b}'' \<noteq> [] \<and>
   regroup (findall_grouping ''color:red; :hover{a:b}'') = '':hover{a:b}'' \<and>
   merge_styles insertion_order ''color:red; :hover{a:b}'' ''x:y'' [] =
     merge_styles insertion_order '':hover{a:b}'' ''x:y'' [] \<and>
   merge_styles insertion_order ''color:red; :hover{a:b}'' ''x:y'' [] = Inr ''{x:y} :hover{a:b}''"
proof -
  have 1: "findall_grouping ''color:red; :hover{a:b}'' = [('':hover'', ''a:b'')]" by code_simp
  have 2: "merge_styles insertion_order ''color:red; :hover{a:b}'' ''x:y'' [] = Inr ''{x:y} :hover{a:b}''"
    by code_simp
  from only_groups_of_old_count[of "''color:red; :hover{a:b}''" insertion_order "''x:y''" "[]"] 1 2
  show ?thesis by (simp add: regroup_def)
qed

subsection \<open>Serialization of several groups\<close>

lemma join_eq_Nil: "join sep xs = [] \<Longrightarrow> xs = [] \<or> hd xs = []"
  by (induction sep xs rule: join.induct) auto

lemma format_declarations_Nil:
  assumes "order_ok ord" shows "format_declarations ord d = [] \<longleftrightarrow> d = []"
proof
  from assms have io: "mset (items_order ord d) = mset d" by (simp add: order_ok_def)
  { assume "format_declarations ord d = []"
    then have "map fmt (items_order ord d) = [] \<or> hd (map fmt (items_order ord d)) = []"
      unfolding format_declarations_fmt by (rule join_eq_Nil)
    then have "items_order ord d = []"
      by (cases "items_order ord d") (auto simp: fmt_def)
    with io show "d = []" by simp }
  { assume "d = []"
    with io have "items_order ord d = []" by simp
    then show "format_declarations ord d = []" by (simp add: format_declarations_fmt) }
qed

lemma format_group_empty:
  assumes "order_ok ord"
  shows "format_group ord g = ''{}'' \<longleftrightarrow> fst g = [] \<and> snd g = []"
proof -
  have "format_group ord g = ''{}'' \<longleftrightarrow> fst g = [] \<and> format_declarations ord (snd g) = []"
    by (cases "fst g") (auto simp: format_group_def Cons_eq_append_conv append_eq_Cons_conv)
  with format_declarations_Nil[OF assms] show ?thesis by simp
qed

lemma serialize_groups_many:
  assumes "order_ok ord" "length groups \<noteq> 1"
  shows "serialize_groups ord groups = join '' '' (map (format_group ord) (emitted_groups ord groups))"
proof -
  have "(\<lambda>(klass, mergeable). klass @ ''{'' @ format_declarations ord mergeable @ ''}'') = format_group ord"
    by (auto simp: format_group_def)
  with assms(2) have "serialize_groups ord groups =
      join '' '' (filter (\<lambda>x. x \<noteq> ''{}'') (map (format_group ord)
          (sort_key (\<lambda>x. count_chr CHR '':'' (fst x)) (groups_order ord groups))))"
    by (simp add: serialize_groups_def)
  then show ?thesis
    by (simp add: filter_map o_def format_group_empty[OF assms(1)] emitted_groups_def)
qed

text \<open>
  Claim C5, as amended.  When the merged groups are more than one, the result is the
  groups written as \<open>key{prop:value; ...}\<close> and joined by spaces, in ascending number
  of colons of the key, all of them but the unconditional group if that is empty (the
  text \<open>{}\<close>); an empty group with a key is written, as \<open>key{}\<close>.
\<close>

theorem groups_serialized_in_colon_order:
  assumes "order_ok ord" "merge_groups ord old new klass = Inr groups" "1 < length groups"
  shows "merge_styles ord old new klass =
           Inr (join '' '' (map (format_group ord) (emitted_groups ord groups))) \<and>
         sorted (map (\<lambda>g. count_chr CHR '':'' (fst g)) (emitted_groups ord groups)) \<and>
         mset (emitted_groups ord groups) = filter_mset (\<lambda>g. \<not> (fst g = [] \<and> snd g = [])) (mset groups)"
proof (intro conjI)
  from assms show "merge_styles ord old new klass =
           Inr (join '' '' (map (format_group ord) (emitted_groups ord groups)))"
    by (simp add: merge_styles_def serialize_groups_many)
  show "sorted (map (\<lambda>g. count_chr CHR '':'' (fst g)) (emitted_groups ord groups))"
    unfolding emitted_groups_def by (rule sorted_filter) simp
  from assms(1) have "mset (groups_order ord groups) = mset groups" by (simp add: order_ok_def)
  then show "mset (emitted_groups ord groups) = filter_mset (\<lambda>g. \<not> (fst g = [] \<and> snd g = [])) (mset groups)"
    by (simp add: emitted_groups_def)
qed

lemma groups_ex:
  "merge_groups insertion_order ''{color:red} :hover:focus{x:y} :visited{ }'' ''a:b'' '':hover'' =
     Inr [([], [(''color'', ''red'')]), ('':hover:focus'', [(''x'', ''y'')]), ('':visited'', []),
          ('':hover'', [(''a'', ''b'')])]"
  by code_simp

theorem groups_serialized_in_colon_order_witness:
  "order_ok insertion_order \<and>
   merge_groups insertion_order ''{color:red} :hover:focus{x:y} :visited{ }'' ''a:b'' '':hover'' =
     Inr [([], [(''color'', ''red'')]), ('':hover:focus'', [(''x'', ''y'')]), ('':visited'', []),
          ('':hover'', [(''a'', ''b'')])] \<and>
   merge_styles insertion_order ''{color:red} :hover:focus{x:y} :visited{ }'' ''a:b'' '':hover'' =
     Inr ''{color:red} :visited{} :hover{a:b} :hover:focus{x:y}''"
proof -
  have "(1::nat) < length [([], [(''color'', ''red'')]), ('':hover:focus'', [(''x'', ''y'')]),
     ('':visited'', []), ('':hover'', [(''a'', ''b'')])]" by simp
  from groups_serialized_in_colon_order[OF order_ok_insertion groups_ex this]
  have "merge_styles insertion_order ''{color:red} :hover:focus{x:y} :visited{ }'' ''a:b'' '':hover'' =
     Inr ''{color:red} :visited{} :hover{a:b} :hover:focus{x:y}''"
    by (simp add: emitted_groups_def format_group_def format_declarations_def insertion_order_def
          count_chr_def)
  with order_ok_insertion groups_ex show ?thesis by simp
qed

text \<open>
  Claim C5 as stated fails: the empty group of \<open>:hover\<close> is not omitted.
\<close>

theorem empty_group_counterexample:
  "merge_groups insertion_order ''a:b'' [] '':hover'' = Inr [([], [(''a'', ''b'')]), ('':hover'', [])] \<and>
   merge_styles insertion_order ''a:b'' [] '':hover'' = Inr ''{a:b} :hover{}''"
  by code_simp

section \<open>The orchestrator, the rule extractor and the attribute mapper: proofs\<close>

lemma collect_attributes_other:
  "k \<notin> {''align'', ''bgcolor'', ''width'', ''height''} \<Longrightarrow> collect_attributes xs a k = a k"
  by (induction xs arbitrary: a) (auto simp: Let_def)

text \<open>Only the attributes \<open>align\<close>, \<open>bgcolor\<close>, \<open>width\<close> and \<open>height\<close> are ever set.\<close>

lemma projection_only_four_attributes:
  "k \<notin> {''align'', ''bgcolor'', ''width'', ''height''} \<Longrightarrow>
   style_to_basic_html_attributes element style_content force k = element k"
  by (simp add: style_to_basic_html_attributes_def Let_def collect_attributes_other
           del: insert_iff)

lemma style_to_basic_html_attributes_style:
  "style_to_basic_html_attributes element style_content force ''style'' = element ''style''"
  by (rule projection_only_four_attributes) simp

lemma get_style_set_style: "get_style (set_style pg item new_style item) = new_style"
  by (simp add: get_style_def set_style_def style_to_basic_html_attributes_style)

lemma set_style_other: "other \<noteq> item \<Longrightarrow> set_style pg item new_style other = pg other"
  by (simp add: set_style_def)


text \<open>
  With a pseudo key, the same first merge keeps the rule's declarations as the
  unconditional group and puts the inline declarations under the key.
\<close>

lemma first_touch_groups:
  assumes "order_ok ord" "findall_grouping style = []"
    "parse_declarations style = Inr rule_decls" "parse_declarations inline = Inr inline_decls"
  shows "merge_groups ord style inline klass =
     Inr (if klass = [] then [([], merge_into inline_decls (items_order ord rule_decls))]
          else [([], rule_decls), (klass, inline_decls)])"
proof -
  from assms(1) have "mset (items_order ord []) = mset []" unfolding order_ok_def by blast
  then have "items_order ord [] = []" by simp
  with assms(2-4) show ?thesis
    by (simp add: merge_groups_def parse_old_def dict_get_def)
qed

lemma merge_ex1: "merge_styles insertion_order ''color:blue'' ''color:red'' [] = Inr ''color:red''" by code_simp




lemma merge_ex5: "merge_styles insertion_order ''color:red'' ''color:green'' [] = Inr ''color:green''" by code_simp

lemma merge_ex6: "merge_styles insertion_order ''color:green'' ''color:red'' '':hover'' = Inr ''{color:green} :hover{color:red}''" by code_simp

lemma merge_ex7: "merge_styles insertion_order ''color:red'' ''color:red'' [] = Inr ''color:red''" by code_simp

lemma touch_first:
  "item \<notin> set (first_time st) \<Longrightarrow> get_style (page st item) = inline \<Longrightarrow> inline \<noteq> [] \<Longrightarrow>
   merge_styles ord style inline klass = Inr new_style \<Longrightarrow>
   touch ord style klass st item =
     Inr \<lparr>page = set_style (page st) item new_style, first_time = first_time st @ [item],
          first_time_styles = first_time_styles st @ [(item, inline)]\<rparr>"
  by (simp add: touch_def Let_def)

lemma touch_first_no_inline:
  "item \<notin> set (first_time st) \<Longrightarrow> get_style (page st item) = [] \<Longrightarrow>
   merge_styles ord [] style klass = Inr new_style \<Longrightarrow>
   touch ord style klass st item =
     Inr \<lparr>page = set_style (page st) item new_style, first_time = first_time st @ [item],
          first_time_styles = first_time_styles st @ [(item, [])]\<rparr>"
  by (simp add: touch_def Let_def)

lemma touch_again:
  "item \<in> set (first_time st) \<Longrightarrow> get_style (page st item) = old_style \<Longrightarrow>
   merge_styles ord old_style style klass = Inr new_style \<Longrightarrow>
   touch ord style klass st item = Inr (st\<lparr>page := set_style (page st) item new_style\<rparr>)"
  by (simp add: touch_def Let_def)

lemma get_style_page_one: "get_style (page_one inline 0) = inline"
  by (simp add: get_style_def page_one_def)





lemma expand_ex1: "split_spacing_properties
     [(''p'', ''color:blue''), (''p'', ''color:green''), (''a:hover'', ''color:black'')] =
   Inr [(''p'', ''color:blue''), (''p'', ''color:green''), (''a:hover'', ''color:black'')]"
  by code_simp

lemma sel_p: "split_selector ''p'' = (''p'', [])" by code_simp

lemma sel_a: "split_selector ''a:hover'' = (''a'', '':hover'')" by code_simp

lemma restoration_ex:
  "map_sum id (\<lambda>pg. get_style (pg 0))
     (inline_rules insertion_order select_p
        [(''p'', ''color:blue''), (''p'', ''color:green''), (''a:hover'', ''color:black'')]
        (page_one ''color:red'')) =
   Inr ''{color:green} :hover{color:red}''"
proof -
  define pg1 where "pg1 = set_style (page_one ''color:red'') 0 ''color:red''"
  define pg2 where "pg2 = set_style pg1 0 ''color:green''"
  define st0 where "st0 = \<lparr>page = page_one ''color:red'', first_time = [], first_time_styles = []\<rparr>"
  define st1 where "st1 = \<lparr>page = pg1, first_time = [0], first_time_styles = [(0, ''color:red'')]\<rparr>"
  define st2 where "st2 = \<lparr>page = pg2, first_time = [0], first_time_styles = [(0, ''color:red'')]\<rparr>"
  have t1: "touch insertion_order ''color:blue'' [] st0 0 = Inr st1"
    using touch_first[of 0 st0 "''color:red''" insertion_order "''color:blue''" "[]" "''color:red''"]
    by (simp add: st0_def st1_def pg1_def get_style_page_one merge_ex1)
  have t2: "touch insertion_order ''color:green'' [] st1 0 = Inr st2"
    using touch_again[of 0 st1 "''color:red''" insertion_order "''color:green''" "[]" "''color:green''"]
    by (simp add: st1_def st2_def pg1_def pg2_def get_style_set_style merge_ex5)
  have a: "apply_rules insertion_order select_p (st0, None)
        [(''p'', ''color:blue''), (''p'', ''color:green''), (''a:hover'', ''color:black'')]
      = Inr (st2, Some '':hover'')"
    by (simp add: sel_p sel_a select_p_def t1 t2)
  have r: "reapply_inline insertion_order (Some '':hover'') pg2 [(0, ''color:red'')]
      = Inr (set_style pg2 0 ''{color:green} :hover{color:red}'')"
    by (simp add: pg2_def get_style_set_style merge_ex6)
  show ?thesis
    using a r by (simp add: inline_rules_def expand_ex1 st0_def[symmetric] st2_def get_style_set_style)
qed

lemma collect_ex:
  "collect_rules default_config [''p{color:blue} p{color:green} a:hover{color:black}''] =
     [(''p'', ''color:blue''), (''p'', ''color:green''), (''a:hover'', ''color:black'')] \<and>
   collect_rules default_config [''p{color:blue}''] = [(''p'', ''color:blue'')]"
  by code_simp

text \<open>
  Claim C6 fails on the code.  The pass that re-applies the inline styles merges them
  under \<open>class_\<close>, a variable the loop over the rules left set to the pseudo-class of
  the last rule.  For a \<open>p\<close> with the inline style \<open>color:red\<close> and the style sheet
  \<open>p{color:blue} p{color:green} a:hover{color:black}\<close> (default configuration), the
  inline declaration ends in the group of \<open>:hover\<close> and the unconditional group
  keeps \<open>color:green\<close> of the style sheet.
\<close>

theorem restoration_uses_last_pseudo_class:
  "map_sum id (\<lambda>pg. get_style (pg 0))
     (transform_styles default_config insertion_order select_p
        [''p{color:blue} p{color:green} a:hover{color:black}''] (page_one ''color:red'')) =
   Inr ''{color:green} :hover{color:red}''"
  using restoration_ex collect_ex by (simp add: transform_styles_def)

text \<open>
  The example of the claim holds: with the single rule \<open>p{color:blue}\<close> the element
  keeps its inline \<open>color:red\<close>.
\<close>

lemma inline_example_rules:
  "map_sum id (\<lambda>pg. get_style (pg 0))
     (inline_rules insertion_order select_p [(''p'', ''color:blue'')] (page_one ''color:red'')) =
   Inr ''color:red''"
proof -
  define pg1 where "pg1 = set_style (page_one ''color:red'') 0 ''color:red''"
  define st0 where "st0 = \<lparr>page = page_one ''color:red'', first_time = [], first_time_styles = []\<rparr>"
  define st1 where "st1 = \<lparr>page = pg1, first_time = [0], first_time_styles = [(0, ''color:red'')]\<rparr>"
  have s: "split_spacing_properties [(''p'', ''color:blue'')] = Inr [(''p'', ''color:blue'')]"
    by code_simp
  have t1: "touch insertion_order ''color:blue'' [] st0 0 = Inr st1"
    using touch_first[of 0 st0 "''color:red''" insertion_order "''color:blue''" "[]" "''color:red''"]
    by (simp add: st0_def st1_def pg1_def get_style_page_one merge_ex1)
  have a: "apply_rules insertion_order select_p (st0, None) [(''p'', ''color:blue'')]
      = Inr (st1, Some [])"
    by (simp add: sel_p select_p_def t1)
  have r: "reapply_inline insertion_order (Some []) pg1 [(0, ''color:red'')]
      = Inr (set_style pg1 0 ''color:red'')"
    by (simp add: pg1_def get_style_set_style merge_ex7)
  show ?thesis
    using a r by (simp add: inline_rules_def s st0_def[symmetric] st1_def get_style_set_style)
qed

lemma inline_example:
  "map_sum id (\<lambda>pg. get_style (pg 0))
     (transform_styles default_config insertion_order select_p [''p{color:blue}'']
        (page_one ''color:red'')) =
   Inr ''color:red''"
  using inline_example_rules collect_ex by (simp add: transform_styles_def)

text \<open>
  Claim C4 fails on the code for \<open>nth-child\<close>.  The entry \<open>nth-child\<close> of
  \<open>FILTER_PSEUDOSELECTORS\<close> has no leading colon and is compared for equality with a
  text that starts with one, so it never matches: with pseudo-class exclusion on,
  \<open>li:nth-child(2)\<close> goes to the leftover rules, and the orchestrator matches \<open>li\<close>
  and merges under \<open>:nth-child(2)\<close>.  \<open>li:first-child\<close> is kept, as the claim says.
\<close>

theorem nth_child_not_kept:
  "parse_style_rules exclude_config ''li:nth-child(2){color:red}'' =
     ([], [(''li:nth-child(2)'', ''color:red'')]) \<and>
   split_selector ''li:nth-child(2)'' = (''li'', '':nth-child(2)'') \<and>
   parse_style_rules exclude_config ''li:first-child{color:red}'' =
     ([(''li:first-child'', ''color:red'')], []) \<and>
   split_selector ''li:first-child'' = (''li:first-child'', [])"
  by code_simp

text \<open>
  The test against \<open>FILTER_PSEUDOSELECTORS\<close> holds for exactly the suffixes
  \<open>:last-child\<close> and \<open>:first-child\<close>; a selector with one of them is never a leftover
  and is matched whole with an empty \<open>class_\<close>; a selector with any other suffix,
  \<open>nth-child\<close> ones included, is split.
\<close>

lemma filter_pseudoselector_iff:
  "(CHR '':'' # x \<in> set FILTER_PSEUDOSELECTORS) = (x = ''last-child'' \<or> x = ''first-child'')"
  by (auto simp: FILTER_PSEUDOSELECTORS_def)

lemma first_last_child_kept:
  assumes "CHR '':'' \<in> set selector"
    and "split1 CHR '':'' selector ! 1 = ''first-child'' \<or> split1 CHR '':'' selector ! 1 = ''last-child''"
  shows "split_selector selector = (selector, []) \<and>
         classify_selectors cfg bulk [selector] (rules, leftover) = (rules @ [(selector, bulk)], leftover)"
proof -
  from assms(1) have "selector \<noteq> ''*''" by auto
  with assms show ?thesis
    by (auto simp: split_selector_def filter_pseudoselector_iff Let_def)
qed

lemma other_pseudo_split_off:
  assumes "CHR '':'' \<in> set selector"
    and "split1 CHR '':'' selector ! 1 \<noteq> ''first-child''" "split1 CHR '':'' selector ! 1 \<noteq> ''last-child''"
  shows "split_selector selector = (split1 CHR '':'' selector ! 0, CHR '':'' # split1 CHR '':'' selector ! 1) \<and>
         classify_selectors cfg bulk [selector] (rules, leftover) =
           (if exclude_pseudoclasses cfg then (rules, leftover @ [(selector, bulk)])
            else (rules @ [(selector, bulk)], leftover))"
proof -
  from assms(1) have "selector \<noteq> ''*''" by auto
  with assms show ?thesis
    by (auto simp: split_selector_def filter_pseudoselector_iff Let_def)
qed

text \<open>
  Claim C9 fails on the code in its last part.  The mapper takes the text up to the
  first \<open>}\<close> without its first character as the unconditional group.  A style whose
  unconditional group is empty starts with a pseudo-class group (the merge leaves
  \<open>{}\<close> out), and then the declarations of that group, but the first, are projected:
  here \<open>height\<close> or \<open>width\<close> of the \<open>:hover\<close> group becomes an attribute.
\<close>

theorem projection_reads_pseudo_group:
  "style_to_basic_html_attributes Map.empty '':hover{width:100px; height:50px}'' True ''height'' = Some ''50'' \<and>
   style_to_basic_html_attributes Map.empty '':hover{height:50px; width:100px}'' True ''width'' = Some ''100'' \<and>
   style_to_basic_html_attributes Map.empty '':hover{color:red; width:100px}'' True ''width'' = Some ''100''"
  by (simp add: style_to_basic_html_attributes_def count_chr_def strip_def is_space_def endswith_def)

text \<open>
  The rest of the claim holds: the example of the specification, and a style that
  starts with its unconditional group is projected from that group alone.
\<close>

lemma projection_example:
  "style_to_basic_html_attributes Map.empty ''background-color:#fff; width:100px'' True =
     [''bgcolor'' \<mapsto> ''#fff'', ''width'' \<mapsto> ''100'']"
  by (simp add: style_to_basic_html_attributes_def count_chr_def strip_def is_space_def endswith_def
        fun_eq_iff)

lemma projection_unconditional_group:
  assumes "CHR ''}'' \<notin> set d"
  shows "style_to_basic_html_attributes element (''{'' @ d @ ''}'' @ rest) force =
         style_to_basic_html_attributes element d force"
proof -
  have 1: "split_chr CHR ''}'' (CHR ''{'' # d @ CHR ''}'' # rest) = (CHR ''{'' # d) # split_chr CHR ''}'' rest"
    using split_chr_append[of "CHR ''}''" "CHR ''{'' # d" rest] assms by simp
  have 2: "count_chr CHR ''}'' d = 0" using assms by (auto simp: count_chr_def filter_empty_conv)
  have 3: "count_chr CHR ''}'' (CHR ''{'' # d @ CHR ''}'' # rest) \<noteq> 0" by (simp add: count_chr_def)
  show ?thesis using 3 by (simp add: style_to_basic_html_attributes_def 1 2 del: split_chr.simps)
qed

lemma merge_ex8: "merge_styles insertion_order [] ''width:100px;height:50px'' '':hover'' = Inr '':hover{width:100px; height:50px}''"
  by code_simp

text \<open>
  The orchestrator reaches that case: an element without inline style that only a
  \<open>:hover\<close> rule touches gets the attribute \<open>height\<close> from the rule.
\<close>

lemma pipeline_projection:
  "map_sum id (\<lambda>pg. (get_style (pg 0), pg 0 ''height''))
     (inline_rules insertion_order select_p [(''p:hover'', ''width:100px;height:50px'')] (page_one [])) =
   Inr ('':hover{width:100px; height:50px}'', Some ''50'')"
proof -
  define pg1 where "pg1 = set_style (page_one []) 0 '':hover{width:100px; height:50px}''"
  define st0 where "st0 = \<lparr>page = page_one [], first_time = [], first_time_styles = []\<rparr>"
  define st1 where "st1 = \<lparr>page = pg1, first_time = [0], first_time_styles = [(0, [])]\<rparr>"
  have s: "split_spacing_properties [(''p:hover'', ''width:100px;height:50px'')]
      = Inr [(''p:hover'', ''width:100px;height:50px'')]" by code_simp
  have sel: "split_selector ''p:hover'' = (''p'', '':hover'')" by code_simp
  have t1: "touch insertion_order ''width:100px;height:50px'' '':hover'' st0 0 = Inr st1"
    using touch_first_no_inline[of 0 st0 insertion_order "''width:100px;height:50px''" "'':hover''"
        "'':hover{width:100px; height:50px}''"]
    by (simp add: st0_def st1_def pg1_def get_style_page_one merge_ex8)
  have a: "apply_rules insertion_order select_p (st0, None) [(''p:hover'', ''width:100px;height:50px'')]
      = Inr (st1, Some '':hover'')"
    by (simp add: sel select_p_def t1)
  have h: "pg1 0 ''height'' = Some ''50''"
    by (simp add: pg1_def set_style_def style_to_basic_html_attributes_def count_chr_def strip_def
          is_space_def endswith_def)
  show ?thesis
    using a h by (simp add: inline_rules_def s st0_def[symmetric] st1_def pg1_def get_style_set_style)
qed

end
